theory Spec2Isabelle
  imports Main
begin

section \<open>Data\<close>

text \<open>
  The program (\<open>src/arcgis/arcgis.py\<close>) reads a LAS/LAZ point cloud through the library
  laspy and writes the scaled coordinates either to a CSV file (\<open>export_las_to_csv\<close>) or
  to an Excel workbook that is split over several sheets (\<open>export_las_to_excel\<close>).

  The coordinates the program sees are the float64 values that laspy hands out as
  \<open>points.x\<close>, \<open>points.y\<close>, \<open>points.z\<close>. The program never computes with them, it only
  copies them, so their type is left open as the type variable \<open>'c\<close>.
\<close>

text \<open>
  The exceptions that reach the program from \<open>open\<close>, from laspy, from numpy under
  it, and from openpyxl.
\<close>

datatype py_exception =
  FileNotFoundError | IsADirectoryError | LaspyException string | ValueError string

text \<open>A cell is a header string or a coordinate; a row is what \<open>writerow\<close> and \<open>append\<close> take.\<close>

datatype 'c cell = Text string | Number 'c

type_synonym 'c row = "'c cell list"

type_synonym 'c point = "'c \<times> 'c \<times> 'c"

text \<open>A sheet of a workbook: its title and its rows, in the order they were appended.\<close>

type_synonym 'c sheet = "string \<times> 'c row list"

text \<open>
  A LAS file as laspy reads it: the point count that its header declares; the points of
  the whole records that its point data holds, in file order, which may be fewer or more
  than declared; and, when the point data ends inside a record, the exception that
  decoding raises on a read that takes in the cut record (\<open>None\<close> when the data ends
  at a record boundary).
\<close>

datatype 'c las =
  Las (point_count: nat) (readable: "'c point list") (cut_record: "py_exception option")

datatype 'c node = LasFile "'c las" | CsvFile "'c row list" | XlsxFile "'c sheet list" | Directory

type_synonym 'c filesystem = "string \<rightharpoonup> 'c node"

text \<open>
  A call either returns or raises; in both cases the files it has written stay written, so
  both carry the state reached.
\<close>

datatype 's outcome = Returned 's | Raised py_exception 's

definition EXCEL_MAX_ROWS :: nat where
  "EXCEL_MAX_ROWS = 1048576"

definition DEFAULT_LAS :: string where
  "DEFAULT_LAS = ''./sample.las''"

definition CHUNK_SIZE :: int where
  "CHUNK_SIZE = 500000"

text \<open>The literal \<open>["EASTING", "NORTHING", "ELEVATION"]\<close>, written three times in the source.\<close>

definition header_row :: "'c row" where
  "header_row = [Text ''EASTING'', Text ''NORTHING'', Text ''ELEVATION'']"

text \<open>The row that \<open>writerows\<close> and \<open>ws.append\<close> make of one tuple of \<open>zip(x_arr, y_arr, z_arr)\<close>.\<close>

definition data_row :: "'c point \<Rightarrow> 'c row" where
  "data_row t = (case t of (x, y, z) \<Rightarrow> [Number x, Number y, Number z])"

section \<open>Decimal strings\<close>

text \<open>The f-string \<open>f"Points_{sheet_index}"\<close> prints the counter in decimal.\<close>

definition digit_char :: "nat \<Rightarrow> char" where
  "digit_char d = ''0123456789'' ! d"

function str_nat :: "nat \<Rightarrow> string" where
  "str_nat n = (if n < 10 then [digit_char n] else str_nat (n div 10) @ [digit_char (n mod 10)])"
  by pat_completeness auto
termination
  by (relation "measure id") auto

declare str_nat.simps [simp del]

definition points_title :: "nat \<Rightarrow> string" where
  "points_title i = ''Points_'' @ str_nat i"

section \<open>The reader\<close>

text \<open>
  \<open>laspy.open(las_path)\<close>: the path has to name a LAS file. The library is not part of
  the repository; what the program relies on is that the call either raises or gives a
  reader over the file's points.
\<close>

definition laspy_open :: "'c filesystem \<Rightarrow> string \<Rightarrow> py_exception + 'c las" where
  "laspy_open fs path =
     (case fs path of
        None \<Rightarrow> Inl FileNotFoundError
      | Some (LasFile l) \<Rightarrow> Inr l
      | Some Directory \<Rightarrow> Inl IsADirectoryError
      | Some _ \<Rightarrow> Inl (LaspyException ''not a LAS file''))"

text \<open>
  \<open>reader.read_points(n)\<close> of laspy 2 reads at most as many points as the header still
  advertises: with \<open>points_left = point_count - points_read\<close> it asks for \<open>points_left\<close>
  records when \<open>n\<close> is negative and for \<open>min(n, points_left)\<close> otherwise.
\<close>

definition request :: "int \<Rightarrow> nat \<Rightarrow> nat" where
  "request n points_left = (if n < 0 then points_left else min (nat n) points_left)"

text \<open>
  \<open>reader.chunk_iterator(n)\<close> calls \<open>read_points(n)\<close> until a read comes back empty,
  and yields every read that is not. A read returns no points when no point is left to
  advertise. Otherwise it takes the bytes of the records it asks for, as far as they are
  there. When they are all there, they are the next points. When the data ends before,
  at a record boundary, the read returns the whole records that are left (laspy only
  logs that it could not read them all), and counts the records it asked for as read.
  When the data ends before inside a record, the bytes taken are not a whole number of
  records and decoding them raises; nothing of that read is yielded.

  The arguments are the points not yet read, the exception of a cut record, and the
  number of points left to advertise. The result lists the chunks that were yielded and
  the exception that ended the iteration, if one did. The iterator is lazy in Python;
  reading has no effect on the files, so the chunks can be listed up front.
\<close>

function chunk_iterator :: "'c point list \<Rightarrow> py_exception option \<Rightarrow> nat \<Rightarrow> int
    \<Rightarrow> 'c point list list \<times> py_exception option" where
  "chunk_iterator pts torn points_left n =
     (if points_left = 0 \<or> request n points_left = 0 then ([], None)
      else if request n points_left \<le> length pts then
        (case chunk_iterator (drop (request n points_left) pts) torn
                (points_left - request n points_left) n of
           (chunks, err) \<Rightarrow> (take (request n points_left) pts # chunks, err))
      else
        (case torn of
           Some e \<Rightarrow> ([], Some e)
         | None \<Rightarrow>
             (if pts = [] then ([], None)
              else
                (case chunk_iterator [] torn (points_left - request n points_left) n of
                   (chunks, err) \<Rightarrow> (pts # chunks, err)))))"
  by pat_completeness auto
termination
  by (relation "measure (\<lambda>(pts, torn, points_left, n). points_left)") auto

declare chunk_iterator.simps [simp del]

text \<open>\<open>chunk_points\<close> yields, for every chunk, the three coordinate arrays.\<close>

definition chunk_points :: "'c las \<Rightarrow> int
    \<Rightarrow> ('c list \<times> 'c list \<times> 'c list) list \<times> py_exception option" where
  "chunk_points reader chunk_size =
     (case chunk_iterator (readable reader) (cut_record reader) (point_count reader) chunk_size of
        (chunks, err) \<Rightarrow>
          (map (\<lambda>points. (map fst points, map (fst \<circ> snd) points, map (snd \<circ> snd) points)) chunks,
           err))"

text \<open>\<open>zip(x_arr, y_arr, z_arr)\<close>: tuples up to the length of the shortest array.\<close>

definition zip3 :: "'c list \<Rightarrow> 'c list \<Rightarrow> 'c list \<Rightarrow> 'c point list" where
  "zip3 xs ys zs = zip xs (zip ys zs)"

section \<open>Excel export\<close>

text \<open>
  The local variables of \<open>export_las_to_excel\<close>. \<open>wb\<close> is the write-only workbook, a list of
  sheets in creation order; \<open>ws\<close> refers to a sheet of it, here by its position.
\<close>

record 'c excel_state =
  wb :: "'c sheet list"
  ws :: nat
  sheet_index :: nat
  rows_in_sheet :: nat

definition create_sheet :: "'c sheet list \<Rightarrow> string \<Rightarrow> 'c sheet list \<times> nat" where
  "create_sheet book title = (book @ [(title, [])], length book)"

definition ws_append :: "'c sheet list \<Rightarrow> nat \<Rightarrow> 'c row \<Rightarrow> 'c sheet list" where
  "ws_append book i r = book[i := (fst (book ! i), snd (book ! i) @ [r])]"

text \<open>
  The body of the inner loop (lines 44 to 51), with the row limit as an argument:
  the source compares with the module constant \<open>EXCEL_MAX_ROWS\<close>.
\<close>

definition write_row :: "nat \<Rightarrow> 'c excel_state \<Rightarrow> 'c point \<Rightarrow> 'c excel_state" where
  "write_row max_rows st row =
     (let st1 =
        (if rows_in_sheet st \<ge> max_rows then
           (case create_sheet (wb st) (points_title (sheet_index st + 1)) of
              (book, w) \<Rightarrow>
                st\<lparr>wb := ws_append book w header_row, ws := w,
                   sheet_index := sheet_index st + 1, rows_in_sheet := 1\<rparr>)
         else st)
      in st1\<lparr>wb := ws_append (wb st1) (ws st1) (data_row row),
             rows_in_sheet := rows_in_sheet st1 + 1\<rparr>)"

text \<open>Lines 33 to 38: the workbook with its first sheet and the header in it.\<close>

definition excel_init :: "'c excel_state" where
  "excel_init =
     (case create_sheet [] (points_title 1) of
        (book, w) \<Rightarrow>
          \<lparr>wb = ws_append book w header_row, ws = w, sheet_index = 1, rows_in_sheet = 1\<rparr>)"

text \<open>The two nested loops of lines 41 to 51.\<close>

definition excel_rows :: "nat \<Rightarrow> ('c list \<times> 'c list \<times> 'c list) list \<Rightarrow> 'c excel_state
    \<Rightarrow> 'c excel_state" where
  "excel_rows max_rows chunks st0 =
     fold (\<lambda>(x_arr, y_arr, z_arr) st. fold (\<lambda>row s. write_row max_rows s row) (zip3 x_arr y_arr z_arr) st)
       chunks st0"

text \<open>\<open>wb.save(xlsx_path)\<close> writes the whole workbook, or raises when the path is a directory.\<close>

definition wb_save :: "'c filesystem \<Rightarrow> string \<Rightarrow> 'c sheet list \<Rightarrow> 'c filesystem outcome" where
  "wb_save fs path book =
     (if fs path = Some Directory then Raised IsADirectoryError fs
      else Returned (fs(path \<mapsto> XlsxFile book)))"

text \<open>
  The workbook lives in memory until \<open>wb.save\<close>, so an exception from the reader leaves
  the files as they were. \<open>wb.close()\<close> after the save changes nothing.
\<close>

definition export_las_to_excel_with :: "nat \<Rightarrow> 'c filesystem \<Rightarrow> string \<Rightarrow> string \<Rightarrow> int
    \<Rightarrow> 'c filesystem outcome" where
  "export_las_to_excel_with max_rows fs las_path xlsx_path chunk_size =
     (let st0 = excel_init in
      case laspy_open fs las_path of
        Inl e \<Rightarrow> Raised e fs
      | Inr reader \<Rightarrow>
          (case chunk_points reader (max 1 chunk_size) of
             (chunks, err) \<Rightarrow>
               (let st = excel_rows max_rows chunks st0 in
                case err of
                  Some e \<Rightarrow> Raised e fs
                | None \<Rightarrow> wb_save fs xlsx_path (wb st))))"

definition export_las_to_excel :: "'c filesystem \<Rightarrow> string \<Rightarrow> string \<Rightarrow> int
    \<Rightarrow> 'c filesystem outcome" where
  "export_las_to_excel = export_las_to_excel_with EXCEL_MAX_ROWS"

section \<open>CSV export\<close>

text \<open>
  \<open>open(csv_path, "w")\<close> raises on a directory and otherwise creates or empties the file
  before laspy opens the input. The \<open>with\<close> block closes the file on every way out, so
  the rows written so far are in the file also when the reader raises.
\<close>

definition writerows :: "'c row list \<Rightarrow> 'c point list \<Rightarrow> 'c row list" where
  "writerows f tuples = f @ map data_row tuples"

definition export_las_to_csv :: "'c filesystem \<Rightarrow> string \<Rightarrow> string \<Rightarrow> int
    \<Rightarrow> 'c filesystem outcome" where
  "export_las_to_csv fs las_path csv_path chunk_size =
     (if fs csv_path = Some Directory then Raised IsADirectoryError fs
      else
        (let f = [header_row];
             fs1 = fs(csv_path \<mapsto> CsvFile f) in
         case laspy_open fs1 las_path of
           Inl e \<Rightarrow> Raised e fs1
         | Inr reader \<Rightarrow>
             (case chunk_points reader (max 1 chunk_size) of
                (chunks, err) \<Rightarrow>
                  (let f' = fold (\<lambda>(x_arr, y_arr, z_arr) g. writerows g (zip3 x_arr y_arr z_arr)) chunks f;
                       fs2 = fs(csv_path \<mapsto> CsvFile f') in
                   case err of
                     Some e \<Rightarrow> Raised e fs2
                   | None \<Rightarrow> Returned fs2))))"

section \<open>Paths\<close>

text \<open>
  The functions of \<open>os.path\<close> that \<open>main\<close> and the worker use, as \<open>posixpath\<close> defines
  them, and \<open>str.rsplit(".", 1)[0]\<close>.
\<close>

definition os_path_basename :: "string \<Rightarrow> string" where
  "os_path_basename p = rev (takeWhile (\<lambda>c. c \<noteq> CHR ''/'') (rev p))"

definition os_path_dirname :: "string \<Rightarrow> string" where
  "os_path_dirname p =
     (let head = rev (dropWhile (\<lambda>c. c \<noteq> CHR ''/'') (rev p))
      in if head \<noteq> [] \<and> (\<exists>c \<in> set head. c \<noteq> CHR ''/'')
         then rev (dropWhile (\<lambda>c. c = CHR ''/'') (rev head))
         else head)"

definition os_path_splitext :: "string \<Rightarrow> string \<times> string" where
  "os_path_splitext p =
     (let name = os_path_basename p;
          stem = rev (tl (dropWhile (\<lambda>c. c \<noteq> CHR ''.'') (rev name)))
      in if CHR ''.'' \<in> set name \<and> (\<exists>c \<in> set stem. c \<noteq> CHR ''.'')
         then (rev (tl (dropWhile (\<lambda>c. c \<noteq> CHR ''.'') (rev p))),
               CHR ''.'' # rev (takeWhile (\<lambda>c. c \<noteq> CHR ''.'') (rev p)))
         else (p, []))"

definition os_path_join :: "string \<Rightarrow> string \<Rightarrow> string" where
  "os_path_join a b =
     (if take 1 b = ''/'' then b
      else if a = [] \<or> last a = CHR ''/'' then a @ b
      else a @ ''/'' @ b)"

definition os_path_isfile :: "'c filesystem \<Rightarrow> string \<Rightarrow> bool" where
  "os_path_isfile fs p = (case fs p of None \<Rightarrow> False | Some Directory \<Rightarrow> False | Some _ \<Rightarrow> True)"

definition rsplit_dot_head :: "string \<Rightarrow> string" where
  "rsplit_dot_head s =
     (if CHR ''.'' \<in> set s then rev (tl (dropWhile (\<lambda>c. c \<noteq> CHR ''.'') (rev s))) else s)"

section \<open>The command line\<close>

text \<open>
  The loop of lines 88 to 93. Nothing catches an exception of \<open>export_las_to_csv\<close> here, so
  it leaves the loop and \<open>main\<close>. The second component collects the printed lines.
\<close>

fun main_loop :: "string list \<Rightarrow> 'c filesystem \<times> string list
    \<Rightarrow> ('c filesystem \<times> string list) outcome" where
  "main_loop [] s = Returned s"
| "main_loop (las_path # files) (fs, printed) =
     (let base = fst (os_path_splitext (os_path_basename las_path));
          out_dir = os_path_dirname las_path;
          out_csv = os_path_join out_dir (base @ ''.csv'')
      in case export_las_to_csv fs las_path out_csv CHUNK_SIZE of
           Raised e fs' \<Rightarrow> Raised e (fs', printed)
         | Returned fs' \<Rightarrow> main_loop files (fs', printed @ [''Exported: '' @ out_csv]))"

text \<open>
  \<open>main\<close>, given \<open>os.environ\<close> and \<open>sys.argv\<close>. Its third branch opens the window and is
  not a computation on files: the result is \<open>None\<close> there. The window's export thread
  is \<open>export_worker\<close> below.
\<close>

definition main :: "(string \<rightharpoonup> string) \<Rightarrow> string list \<Rightarrow> 'c filesystem
    \<Rightarrow> ('c filesystem \<times> string list) outcome option" where
  "main environ argv fs =
     (if environ ''LAS_EXPORT_HEADLESS'' = Some ''1'' then
        (let las_path = DEFAULT_LAS;
             out_path = rsplit_dot_head las_path @ ''.csv''
         in case export_las_to_csv fs las_path out_path CHUNK_SIZE of
              Raised e fs' \<Rightarrow> Some (Raised e (fs', []))
            | Returned fs' \<Rightarrow> Some (Returned (fs', [''Headless export complete: '' @ out_path])))
      else if length argv > 1 then
        (let files = filter (os_path_isfile fs) (drop 1 argv)
         in if files = [] then Some (Returned (fs, [''No valid input files provided.'']))
            else Some (main_loop files (fs, [])))
      else None)"

section \<open>The export thread of the window\<close>

text \<open>
  The fields of \<open>App\<close> that the worker reads, and the calls it posts to the window with
  \<open>self.after\<close>: an error box for a path, a progress value, and the final \<open>_export_done\<close>.
\<close>

record app =
  selected_files :: "string list"
  output_dir :: string
  as_csv_var :: bool

datatype ui_event = ShowError string py_exception | Progress nat | ExportDone nat

text \<open>The body of the \<open>try\<close> (lines 176 to 184), up to the export call.\<close>

definition worker_job :: "app \<Rightarrow> 'c filesystem \<Rightarrow> string \<Rightarrow> 'c filesystem outcome" where
  "worker_job self fs las_path =
     (let base = fst (os_path_splitext (os_path_basename las_path));
          ext = (if as_csv_var self then ''.csv'' else ''.xlsx'');
          x_path = (if output_dir self \<noteq> [] then os_path_join (output_dir self) (base @ ext)
                    else os_path_join (os_path_dirname las_path) (base @ ext))
      in if as_csv_var self then export_las_to_csv fs las_path x_path CHUNK_SIZE
         else export_las_to_excel fs las_path x_path CHUNK_SIZE)"

text \<open>
  One round of the loop per file: \<open>except Exception\<close> posts the error and the loop goes on;
  \<open>finally\<close> posts the progress in both cases.
\<close>

fun worker_loop :: "app \<Rightarrow> (nat \<times> string) list \<Rightarrow> 'c filesystem \<times> nat \<times> ui_event list
    \<Rightarrow> 'c filesystem \<times> nat \<times> ui_event list" where
  "worker_loop self [] s = s"
| "worker_loop self ((idx, las_path) # rest) (fs, ok, posted) =
     (case worker_job self fs las_path of
        Returned fs' \<Rightarrow> worker_loop self rest (fs', ok + 1, posted @ [Progress idx])
      | Raised e fs' \<Rightarrow> worker_loop self rest (fs', ok, posted @ [ShowError las_path e, Progress idx]))"

definition export_worker :: "app \<Rightarrow> 'c filesystem \<Rightarrow> 'c filesystem \<times> ui_event list" where
  "export_worker self fs =
     (case worker_loop self (enumerate 1 (selected_files self)) (fs, 0, []) of
        (fs', ok, posted) \<Rightarrow> (fs', posted @ [ExportDone ok]))"

section \<open>Notions used in the statements\<close>

text \<open>The state an outcome carries, and the exception if it is one.\<close>

fun state_of :: "'s outcome \<Rightarrow> 's" where
  "state_of (Returned s) = s"
| "state_of (Raised e s) = s"

fun raised :: "'s outcome \<Rightarrow> py_exception option" where
  "raised (Returned s) = None"
| "raised (Raised e s) = Some e"

text \<open>
  The points that the reader hands over from a file it reads without raising: the whole
  records present, up to the declared count.
\<close>

definition decoded :: "'c las \<Rightarrow> 'c point list" where
  "decoded l = take (point_count l) (readable l)"

text \<open>
  The files that are read without raising: the point data does not end inside a record,
  or it does so only after the declared number of records.
\<close>

definition reads_to_end :: "'c las \<Rightarrow> bool" where
  "reads_to_end l \<longleftrightarrow> cut_record l = None \<or> point_count l \<le> length (readable l)"

text \<open>The titles of the sheets of a workbook file, in order.\<close>

fun page_titles :: "'c node option \<Rightarrow> string list" where
  "page_titles (Some (XlsxFile book)) = map fst book"
| "page_titles _ = []"

text \<open>The state of the Excel export after the rows of the points \<open>seen\<close> have been written.\<close>

definition excel_after :: "nat \<Rightarrow> 'c point list \<Rightarrow> 'c excel_state" where
  "excel_after max_rows seen = fold (\<lambda>row s. write_row max_rows s row) seen excel_init"

text \<open>
  The page count as the specification words it, \<open>ceil((N+1)/(R-1))\<close>, in natural numbers:
  the ceiling of \<open>a / b\<close> is \<open>(a + b - 1) div b\<close>.
\<close>

definition spec_page_count :: "nat \<Rightarrow> nat \<Rightarrow> nat" where
  "spec_page_count R N = ((N + 1) + (R - 1) - 1) div (R - 1)"

text \<open>The page count of the code: full pages of \<open>R - 1\<close> data rows each, and at least one page.\<close>

definition page_count :: "nat \<Rightarrow> nat \<Rightarrow> nat" where
  "page_count R N = max 1 ((N + (R - 1) - 1) div (R - 1))"

text \<open>
  What holds of the loop state whatever the row limit is: \<open>ws\<close> is the sheet created last,
  the counters agree with the workbook, every sheet starts with the header, every sheet
  but the first has a data row, the titles count up from 1, and the data rows are those
  of the points seen.
\<close>

definition excel_inv :: "'c excel_state \<Rightarrow> 'c point list \<Rightarrow> bool" where
  "excel_inv st seen \<longleftrightarrow>
     wb st \<noteq> [] \<and> ws st = length (wb st) - 1 \<and> sheet_index st = length (wb st) \<and>
     rows_in_sheet st = length (snd (last (wb st))) \<and>
     (\<forall>s \<in> set (wb st). snd s \<noteq> [] \<and> hd (snd s) = header_row) \<and>
     (\<forall>s \<in> set (tl (wb st)). 2 \<le> length (snd s)) \<and>
     map fst (wb st) = map points_title [1..<length (wb st) + 1] \<and>
     concat (map (tl \<circ> snd) (wb st)) = map data_row seen"

text \<open>What holds for a row limit of at least 2: no sheet is over it, and all but the last are full.\<close>

definition rows_bounded :: "nat \<Rightarrow> 'c excel_state \<Rightarrow> bool" where
  "rows_bounded R st \<longleftrightarrow>
     rows_in_sheet st \<le> R \<and> (\<forall>s \<in> set (butlast (wb st)). length (snd s) = R)"

section \<open>Lemmas: decimal titles\<close>

text \<open>Different counters print differently, so different sheets get different titles.\<close>

lemma digit_char_inj: "a < 10 \<Longrightarrow> b < 10 \<Longrightarrow> digit_char a = digit_char b \<Longrightarrow> a = b"
proof -
  assume a: "a < 10" and b: "b < 10" and e: "digit_char a = digit_char b"
  have d: "distinct ''0123456789''" by simp
  have l: "length ''0123456789'' = 10" by simp
  from e have "''0123456789'' ! a = ''0123456789'' ! b" by (simp only: digit_char_def)
  with d a b l show "a = b" by (simp only: nth_eq_iff_index_eq)
qed

lemma str_nat_nonempty: "str_nat n \<noteq> []"
  by (subst str_nat.simps) simp

lemma str_nat_inj: "str_nat n = str_nat m \<Longrightarrow> n = m"
proof (induction n arbitrary: m rule: str_nat.induct)
  case (1 n)
  show ?case
  proof (cases "n < 10")
    case n: True
    show ?thesis
    proof (cases "m < 10")
      case True
      with n "1.prems" show ?thesis
        by (simp add: str_nat.simps[of n] str_nat.simps[of m] digit_char_inj)
    next
      case False
      with n "1.prems" str_nat_nonempty[of "m div 10"] show ?thesis
        by (simp add: str_nat.simps[of n] str_nat.simps[of m])
    qed
  next
    case n: False
    show ?thesis
    proof (cases "m < 10")
      case True
      with n "1.prems" str_nat_nonempty[of "n div 10"] show ?thesis
        by (simp add: str_nat.simps[of n] str_nat.simps[of m])
    next
      case False
      with n "1.prems" have e: "str_nat (n div 10) = str_nat (m div 10)"
        "digit_char (n mod 10) = digit_char (m mod 10)"
        by (simp_all add: str_nat.simps[of n] str_nat.simps[of m])
      from "1.IH"[OF n e(1)] have "n div 10 = m div 10" .
      moreover from e(2) have "n mod 10 = m mod 10" by (simp add: digit_char_inj)
      ultimately show ?thesis by (metis div_mult_mod_eq)
    qed
  qed
qed

lemma points_title_inj: "points_title i = points_title j \<Longrightarrow> i = j"
  by (simp add: points_title_def str_nat_inj)

section \<open>Lemmas: chunks\<close>

text \<open>
  The chunks of a file that is read to its end are its whole records up to the declared
  count, in order, also when they are fewer than declared. The chunks of a file that
  ends inside a record before that count are the points of the full chunks before the
  read that raises.
\<close>

lemma zip3_arrays: "zip3 (map fst ps) (map (fst \<circ> snd) ps) (map (snd \<circ> snd) ps) = ps"
  unfolding zip3_def by (induction ps) auto

lemma request_pos: "0 < n \<Longrightarrow> request n points_left = min (nat n) points_left"
  by (simp add: request_def)

lemma request_le: "request n points_left \<le> points_left"
  by (simp add: request_def)

lemma chunk_iterator_stop:
  "points_left = 0 \<or> request n points_left = 0 \<Longrightarrow>
     chunk_iterator pts torn points_left n = ([], None)"
  by (subst chunk_iterator.simps) simp

lemma chunk_iterator_full:
  "\<not> (points_left = 0 \<or> request n points_left = 0) \<Longrightarrow> request n points_left \<le> length pts \<Longrightarrow>
     chunk_iterator pts torn points_left n =
       (case chunk_iterator (drop (request n points_left) pts) torn
               (points_left - request n points_left) n of
          (chunks, err) \<Rightarrow> (take (request n points_left) pts # chunks, err))"
  by (subst chunk_iterator.simps) simp

lemma chunk_iterator_torn:
  "\<not> (points_left = 0 \<or> request n points_left = 0) \<Longrightarrow> \<not> request n points_left \<le> length pts \<Longrightarrow>
     chunk_iterator pts (Some e) points_left n = ([], Some e)"
  by (subst chunk_iterator.simps) simp

lemma chunk_iterator_end:
  "\<not> (points_left = 0 \<or> request n points_left = 0) \<Longrightarrow>
     chunk_iterator [] None points_left n = ([], None)"
  by (subst chunk_iterator.simps) simp

lemma chunk_iterator_last:
  "\<not> (points_left = 0 \<or> request n points_left = 0) \<Longrightarrow> \<not> request n points_left \<le> length pts \<Longrightarrow>
     pts \<noteq> [] \<Longrightarrow>
     chunk_iterator pts None points_left n =
       (case chunk_iterator [] None (points_left - request n points_left) n of
          (chunks, err) \<Rightarrow> (pts # chunks, err))"
  by (subst chunk_iterator.simps) simp

lemmas chunk_iterator_cases =
  chunk_iterator_stop chunk_iterator_full chunk_iterator_torn chunk_iterator_end chunk_iterator_last

lemma chunk_iterator_clean:
  "0 < n \<Longrightarrow> torn = None \<or> points_left \<le> length pts \<Longrightarrow>
     chunk_iterator (pts :: 'c point list) torn points_left n = (chunks, err) \<Longrightarrow>
     err = None \<and> concat chunks = take points_left pts"
proof (induction pts torn points_left n arbitrary: chunks err rule: chunk_iterator.induct)
  case (1 pts torn points_left n)
  let ?k = "request n points_left"
  have kle: "?k \<le> points_left" by (rule request_le)
  show ?case
  proof (cases "points_left = 0 \<or> ?k = 0")
    case True
    with \<open>0 < n\<close> have "points_left = 0" by (auto simp: request_pos)
    with "1.prems"(3) show ?thesis
      by (simp add: chunk_iterator_cases)
  next
    case stop: False
    show ?thesis
    proof (cases "?k \<le> length pts")
      case True
      obtain cs e where rec: "chunk_iterator (drop ?k pts) torn (points_left - ?k) n = (cs, e)"
        by (cases "chunk_iterator (drop ?k pts) torn (points_left - ?k) n")
      from "1.prems"(2) have "torn = None \<or> points_left - ?k \<le> length (drop ?k pts)" by auto
      from "1.IH"(1)[OF stop True \<open>0 < n\<close> this rec]
      have ih: "e = None" "concat cs = take (points_left - ?k) (drop ?k pts)" by auto
      from "1.prems"(3) stop True rec have ch: "chunks = take ?k pts # cs" "err = e"
        by (auto simp: chunk_iterator_cases)
      have "take points_left pts = take (?k + (points_left - ?k)) pts" using kle by simp
      also have "\<dots> = take ?k pts @ take (points_left - ?k) (drop ?k pts)" by (rule take_add)
      finally show ?thesis using ih ch by simp
    next
      case False
      with kle have short: "length pts < points_left" by simp
      with "1.prems"(2) have none: "torn = None" by simp
      show ?thesis
      proof (cases "pts = []")
        case True
        with "1.prems"(3) stop False none show ?thesis
          by (simp add: chunk_iterator_cases)
      next
        case ne: False
        obtain cs e where rec: "chunk_iterator ([] :: 'c point list) torn (points_left - ?k) n = (cs, e)"
          by (meson surj_pair)
        have "torn = None \<or> points_left - ?k \<le> length ([] :: 'c point list)" using none by simp
        from "1.IH"(2)[OF stop False none ne \<open>0 < n\<close> this rec]
        have ih: "e = None" "concat cs = []" by auto
        from "1.prems"(3) stop False none ne rec have "chunks = pts # cs" "err = e"
          by (auto simp: chunk_iterator_cases)
        with ih short show ?thesis by simp
      qed
    qed
  qed
qed

lemma chunk_iterator_cut:
  "0 < n \<Longrightarrow> length pts < points_left \<Longrightarrow>
     chunk_iterator pts (Some e) points_left n = (chunks, err) \<Longrightarrow>
     err = Some e \<and> concat chunks = take (length pts div nat n * nat n) pts"
proof (induction pts "Some e" points_left n arbitrary: chunks err rule: chunk_iterator.induct)
  case (1 pts points_left n)
  let ?k = "request n points_left"
  from \<open>0 < n\<close> have k: "?k = min (nat n) points_left" by (rule request_pos)
  from "1.prems"(1,2) have stop: "\<not> (points_left = 0 \<or> ?k = 0)" by (auto simp: k)
  show ?case
  proof (cases "?k \<le> length pts")
    case True
    with "1.prems"(2) have kn: "?k = nat n" by (auto simp: k min_def split: if_splits)
    obtain cs e' where rec: "chunk_iterator (drop ?k pts) (Some e) (points_left - ?k) n = (cs, e')"
      by (cases "chunk_iterator (drop ?k pts) (Some e) (points_left - ?k) n")
    from "1.prems"(2) True have "length (drop ?k pts) < points_left - ?k" by simp
    from "1.hyps"(1)[OF stop True \<open>0 < n\<close> this rec]
    have ih: "e' = Some e" "concat cs = take (length (drop ?k pts) div nat n * nat n) (drop ?k pts)"
      by auto
    from "1.prems"(3) stop True rec have ch: "chunks = take ?k pts # cs" "err = e'"
      by (auto simp: chunk_iterator_cases)
    have pos: "0 < nat n" using \<open>0 < n\<close> by simp
    have "length pts div nat n = Suc ((length pts - nat n) div nat n)"
      using True pos by (simp add: kn le_div_geq)
    then have "take (length pts div nat n * nat n) pts
        = take (nat n) pts @ take ((length pts - nat n) div nat n * nat n) (drop (nat n) pts)"
      by (simp add: take_add)
    with ih ch show ?thesis by (simp add: kn)
  next
    case False
    then have "length pts < nat n" by (simp add: k)
    with "1.prems"(3) stop False show ?thesis
      by (simp add: chunk_iterator_cases)
  qed
qed

lemma chunk_iterator_nonempty:
  "0 < n \<Longrightarrow> chunk_iterator (pts :: 'c point list) torn points_left n = (chunks, err) \<Longrightarrow>
     \<forall>ch \<in> set chunks. ch \<noteq> [] \<and> length ch \<le> nat n"
proof (induction pts torn points_left n arbitrary: chunks err rule: chunk_iterator.induct)
  case (1 pts torn points_left n)
  let ?k = "request n points_left"
  from \<open>0 < n\<close> have k: "?k = min (nat n) points_left" by (rule request_pos)
  show ?case
  proof (cases "points_left = 0 \<or> ?k = 0")
    case True
    with "1.prems"(2) show ?thesis
      by (simp add: chunk_iterator_cases)
  next
    case stop: False
    show ?thesis
    proof (cases "?k \<le> length pts")
      case True
      obtain cs e where rec: "chunk_iterator (drop ?k pts) torn (points_left - ?k) n = (cs, e)"
        by (cases "chunk_iterator (drop ?k pts) torn (points_left - ?k) n")
      from "1.IH"(1)[OF stop True \<open>0 < n\<close> rec]
      have ih: "\<forall>ch \<in> set cs. ch \<noteq> [] \<and> length ch \<le> nat n" .
      from "1.prems"(2) stop True rec have "chunks = take ?k pts # cs"
        by (auto simp: chunk_iterator_cases)
      moreover from stop True have "take ?k pts \<noteq> []" by auto
      moreover have "length (take ?k pts) \<le> nat n" by (simp add: k)
      ultimately show ?thesis using ih by simp
    next
      case False
      then have short: "length pts < nat n" by (simp add: k)
      show ?thesis
      proof (cases torn)
        case (Some e)
        with "1.prems"(2) stop False show ?thesis
          by (simp add: chunk_iterator_cases)
      next
        case None
        show ?thesis
        proof (cases "pts = []")
          case True
          with "1.prems"(2) stop False None show ?thesis
            by (simp add: chunk_iterator_cases)
        next
          case ne: False
          obtain cs e where rec: "chunk_iterator ([] :: 'c point list) torn (points_left - ?k) n = (cs, e)"
            by (meson surj_pair)
          from "1.IH"(2)[OF stop False None ne \<open>0 < n\<close> rec]
          have ih: "\<forall>ch \<in> set cs. ch \<noteq> [] \<and> length ch \<le> nat n" .
          from "1.prems"(2) stop False None ne rec have "chunks = pts # cs"
            by (auto simp: chunk_iterator_cases)
          with ih ne short show ?thesis by simp
        qed
      qed
    qed
  qed
qed

lemma csv_fold_chunks:
  "fold (\<lambda>(x_arr, y_arr, z_arr) g. writerows g (zip3 x_arr y_arr z_arr))
        (map (\<lambda>points. (map fst points, map (fst \<circ> snd) points, map (snd \<circ> snd) points)) chunks) f
     = f @ map data_row (concat chunks)"
  by (induction chunks arbitrary: f) (simp_all add: writerows_def zip3_arrays)

lemma excel_rows_chunks:
  "excel_rows R (map (\<lambda>points. (map fst points, map (fst \<circ> snd) points, map (snd \<circ> snd) points)) chunks) st
     = fold (\<lambda>row s. write_row R s row) (concat chunks) st"
  unfolding excel_rows_def
  by (induction chunks arbitrary: st) (simp_all add: zip3_arrays)

lemma clamp_pos: "0 < max 1 (c::int)"
  by simp

lemma not_reads_to_end:
  "\<not> reads_to_end l \<longleftrightarrow> (\<exists>e. cut_record l = Some e) \<and> length (readable l) < point_count l"
  by (auto simp: reads_to_end_def)

lemma chunk_points_clean:
  assumes "reads_to_end l"
  shows "\<exists>chunks. chunk_points l (max 1 c)
       = (map (\<lambda>points. (map fst points, map (fst \<circ> snd) points, map (snd \<circ> snd) points)) chunks, None)
     \<and> concat chunks = decoded l"
proof -
  obtain chunks err where
    ci: "chunk_iterator (readable l) (cut_record l) (point_count l) (max 1 c) = (chunks, err)"
    by (meson surj_pair)
  from assms have "cut_record l = None \<or> point_count l \<le> length (readable l)"
    by (simp add: reads_to_end_def)
  from chunk_iterator_clean[OF clamp_pos this ci]
  have "err = None" "concat chunks = decoded l" by (simp_all add: decoded_def)
  with ci show ?thesis by (intro exI[of _ chunks]) (simp add: chunk_points_def)
qed

lemma chunk_points_cut:
  assumes "cut_record l = Some e" and "length (readable l) < point_count l"
  shows "\<exists>chunks. chunk_points l (max 1 c)
       = (map (\<lambda>points. (map fst points, map (fst \<circ> snd) points, map (snd \<circ> snd) points)) chunks, Some e)
     \<and> concat chunks = take (length (readable l) div nat (max 1 c) * nat (max 1 c)) (readable l)"
proof -
  obtain chunks err where
    ci: "chunk_iterator (readable l) (Some e) (point_count l) (max 1 c) = (chunks, err)"
    by (meson surj_pair)
  from chunk_iterator_cut[OF clamp_pos assms(2) ci]
  have "err = Some e"
    "concat chunks = take (length (readable l) div nat (max 1 c) * nat (max 1 c)) (readable l)"
    by auto
  with ci assms(1) show ?thesis by (intro exI[of _ chunks]) (simp add: chunk_points_def)
qed

text \<open>A negative size asks for all points that are left, in one chunk.\<close>

lemma chunk_iterator_negative:
  "n < 0 \<Longrightarrow> 0 < points_left \<Longrightarrow> points_left \<le> length pts \<Longrightarrow>
     chunk_iterator pts torn points_left n = ([take points_left pts], None)"
  by (simp add: chunk_iterator_full chunk_iterator_stop request_def)

section \<open>Lemmas: what an export returns\<close>

lemma csv_clean:
  assumes "fs p = Some (LasFile l)" "reads_to_end l" "p \<noteq> q" "fs q \<noteq> Some Directory"
  shows "export_las_to_csv fs p q c = Returned (fs(q \<mapsto> CsvFile (header_row # map data_row (decoded l))))"
proof -
  obtain chunks where
    "chunk_points l (max 1 c)
       = (map (\<lambda>points. (map fst points, map (fst \<circ> snd) points, map (snd \<circ> snd) points)) chunks, None)"
    "concat chunks = decoded l"
    using chunk_points_clean[OF assms(2)] by blast
  with assms show ?thesis
    by (simp add: export_las_to_csv_def laspy_open_def csv_fold_chunks)
qed

lemma csv_cut:
  assumes "fs p = Some (LasFile l)" "cut_record l = Some e" "length (readable l) < point_count l"
    "p \<noteq> q" "fs q \<noteq> Some Directory"
  shows "export_las_to_csv fs p q c = Raised e (fs(q \<mapsto> CsvFile (header_row #
           map data_row (take (length (readable l) div nat (max 1 c) * nat (max 1 c)) (readable l)))))"
proof -
  obtain chunks where
    "chunk_points l (max 1 c)
       = (map (\<lambda>points. (map fst points, map (fst \<circ> snd) points, map (snd \<circ> snd) points)) chunks, Some e)"
    "concat chunks = take (length (readable l) div nat (max 1 c) * nat (max 1 c)) (readable l)"
    using chunk_points_cut[OF assms(2,3)] by blast
  with assms show ?thesis
    by (simp add: export_las_to_csv_def laspy_open_def csv_fold_chunks)
qed

lemma csv_returned:
  assumes "export_las_to_csv fs p q c = Returned fs'"
  shows "\<exists>l. fs p = Some (LasFile l) \<and> reads_to_end l \<and> p \<noteq> q \<and> fs q \<noteq> Some Directory"
proof -
  from assms have nd: "fs q \<noteq> Some Directory"
    by (auto simp: export_las_to_csv_def split: if_splits)
  from assms nd have pq: "p \<noteq> q"
    by (auto simp: export_las_to_csv_def laspy_open_def)
  from assms nd pq obtain l where l: "fs p = Some (LasFile l)"
    by (auto simp: export_las_to_csv_def laspy_open_def split: option.splits node.splits)
  have "reads_to_end l"
  proof (rule ccontr)
    assume "\<not> reads_to_end l"
    then obtain e where e: "cut_record l = Some e" "length (readable l) < point_count l"
      by (auto simp: not_reads_to_end)
    have "export_las_to_csv fs p q c = Raised e (fs(q \<mapsto> CsvFile (header_row #
           map data_row (take (length (readable l) div nat (max 1 c) * nat (max 1 c)) (readable l)))))"
      using l e pq nd by (rule csv_cut)
    with assms show False by simp
  qed
  with l pq nd show ?thesis by blast
qed

lemma excel_clean:
  assumes "fs p = Some (LasFile l)" "reads_to_end l" "fs q \<noteq> Some Directory"
  shows "export_las_to_excel_with R fs p q c
    = Returned (fs(q \<mapsto> XlsxFile (wb (excel_after R (decoded l)))))"
proof -
  obtain chunks where
    "chunk_points l (max 1 c)
       = (map (\<lambda>points. (map fst points, map (fst \<circ> snd) points, map (snd \<circ> snd) points)) chunks, None)"
    "concat chunks = decoded l"
    using chunk_points_clean[OF assms(2)] by blast
  with assms show ?thesis
    by (simp add: export_las_to_excel_with_def laspy_open_def excel_rows_chunks wb_save_def excel_after_def)
qed

lemma excel_cut:
  assumes "fs p = Some (LasFile l)" "cut_record l = Some e" "length (readable l) < point_count l"
  shows "export_las_to_excel_with R fs p q c = Raised e fs"
proof -
  obtain chunks where
    "chunk_points l (max 1 c)
       = (map (\<lambda>points. (map fst points, map (fst \<circ> snd) points, map (snd \<circ> snd) points)) chunks, Some e)"
    using chunk_points_cut[OF assms(2,3)] by blast
  with assms show ?thesis
    by (simp add: export_las_to_excel_with_def laspy_open_def)
qed

lemma excel_returned:
  assumes "export_las_to_excel_with R fs p q c = Returned fs'"
  shows "\<exists>l. fs p = Some (LasFile l) \<and> reads_to_end l \<and> fs q \<noteq> Some Directory"
proof -
  from assms obtain l where l: "fs p = Some (LasFile l)"
    by (auto simp: export_las_to_excel_with_def laspy_open_def split: option.splits node.splits)
  have r: "reads_to_end l"
  proof (rule ccontr)
    assume "\<not> reads_to_end l"
    then obtain e where e: "cut_record l = Some e" "length (readable l) < point_count l"
      by (auto simp: not_reads_to_end)
    have "export_las_to_excel_with R fs p q c = Raised e fs"
      using l e by (rule excel_cut)
    with assms show False by simp
  qed
  have "fs q \<noteq> Some Directory"
  proof
    assume d: "fs q = Some Directory"
    obtain chunks where
      "chunk_points l (max 1 c)
         = (map (\<lambda>points. (map fst points, map (fst \<circ> snd) points, map (snd \<circ> snd) points)) chunks, None)"
      using chunk_points_clean[OF r] by blast
    with assms l d show False
      by (simp add: export_las_to_excel_with_def laspy_open_def wb_save_def)
  qed
  with l r show ?thesis by blast
qed

section \<open>Lemmas: the sheet loop\<close>

lemma ws_append_last:
  "book \<noteq> [] \<Longrightarrow> ws_append book (length book - Suc 0) r
     = butlast book @ [(fst (last book), snd (last book) @ [r])]"
proof -
  assume ne: "book \<noteq> []"
  then obtain pre s where b: "book = pre @ [s]" by (metis append_butlast_last_id)
  show ?thesis by (simp add: b ws_append_def)
qed

lemma write_row_same_sheet:
  assumes "wb st \<noteq> []" "ws st = length (wb st) - 1" "rows_in_sheet st < R"
  shows "write_row R st row =
    st\<lparr>wb := butlast (wb st) @ [(fst (last (wb st)), snd (last (wb st)) @ [data_row row])],
       rows_in_sheet := rows_in_sheet st + 1\<rparr>"
  using assms by (simp add: write_row_def ws_append_last)

lemma write_row_new_sheet:
  assumes "R \<le> rows_in_sheet st"
  shows "write_row R st row =
    st\<lparr>wb := wb st @ [(points_title (sheet_index st + 1), [header_row, data_row row])],
       ws := length (wb st), sheet_index := sheet_index st + 1, rows_in_sheet := 2\<rparr>"
  using assms by (simp add: write_row_def create_sheet_def ws_append_def)

lemma excel_inv_init: "excel_inv excel_init []"
  by (simp add: excel_inv_def excel_init_def create_sheet_def ws_append_def)

lemma excel_inv_step:
  assumes inv: "excel_inv st seen"
  shows "excel_inv (write_row R st row) (seen @ [row])"
proof -
  from inv have ne: "wb st \<noteq> []" and wsi: "ws st = length (wb st) - 1"
    and si: "sheet_index st = length (wb st)"
    and ris: "rows_in_sheet st = length (snd (last (wb st)))"
    and hd: "\<forall>s \<in> set (wb st). snd s \<noteq> [] \<and> hd (snd s) = header_row"
    and two: "\<forall>s \<in> set (tl (wb st)). 2 \<le> length (snd s)"
    and titles: "map fst (wb st) = map points_title [1..<length (wb st) + 1]"
    and data: "concat (map (tl \<circ> snd) (wb st)) = map data_row seen"
    by (simp_all add: excel_inv_def)
  show ?thesis
  proof (cases "R \<le> rows_in_sheet st")
    case True
    have st': "write_row R st row =
        st\<lparr>wb := wb st @ [(points_title (sheet_index st + 1), [header_row, data_row row])],
           ws := length (wb st), sheet_index := sheet_index st + 1, rows_in_sheet := 2\<rparr>"
      using True by (rule write_row_new_sheet)
    show ?thesis
      unfolding excel_inv_def st'
      using ne si hd two titles data by simp
  next
    case False
    then have lt: "rows_in_sheet st < R" by simp
    obtain pre t rs where book: "wb st = pre @ [(t, rs)]"
      using ne by (metis append_butlast_last_id surj_pair)
    have st': "write_row R st row = st\<lparr>wb := pre @ [(t, rs @ [data_row row])],
         rows_in_sheet := rows_in_sheet st + 1\<rparr>"
      using write_row_same_sheet[OF ne _ lt, of row] wsi by (simp add: book)
    from hd have rs: "rs \<noteq> []" and hdrs: "hd rs = header_row"
      and hdpre: "\<forall>s \<in> set pre. snd s \<noteq> [] \<and> hd (snd s) = header_row"
      by (simp_all add: book)
    from two have two': "\<forall>s \<in> set (tl (pre @ [(t, rs @ [data_row row])])). 2 \<le> length (snd s)"
      by (cases pre) (auto simp: book)
    show ?thesis
      unfolding excel_inv_def st'
      using wsi si ris hdrs hdpre titles data rs two' by (simp add: book)
  qed
qed

lemma excel_inv_fold:
  "excel_inv st seen \<Longrightarrow> excel_inv (fold (\<lambda>row s. write_row R s row) rows st) (seen @ rows)"
proof (induction rows arbitrary: st seen)
  case Nil
  then show ?case by simp
next
  case (Cons row rows)
  from excel_inv_step[OF Cons.prems, of R row]
  have "excel_inv (write_row R st row) (seen @ [row])" .
  from Cons.IH[OF this] show ?case by simp
qed

lemma excel_inv_after: "excel_inv (excel_after R seen) seen"
  using excel_inv_fold[OF excel_inv_init, of R seen] by (simp add: excel_after_def)

lemma rows_bounded_init: "1 \<le> R \<Longrightarrow> rows_bounded R excel_init"
  by (simp add: rows_bounded_def excel_init_def create_sheet_def ws_append_def)

lemma rows_bounded_step:
  assumes R: "2 \<le> R" and inv: "excel_inv st seen" and rb: "rows_bounded R st"
  shows "rows_bounded R (write_row R st row)"
proof -
  from inv have ne: "wb st \<noteq> []" and wsi: "ws st = length (wb st) - 1"
    and ris: "rows_in_sheet st = length (snd (last (wb st)))"
    by (simp_all add: excel_inv_def)
  from rb have le: "rows_in_sheet st \<le> R" and bl: "\<forall>s \<in> set (butlast (wb st)). length (snd s) = R"
    by (simp_all add: rows_bounded_def)
  show ?thesis
  proof (cases "R \<le> rows_in_sheet st")
    case True
    with le ris have lastlen: "length (snd (last (wb st))) = R" by simp
    have st': "write_row R st row =
        st\<lparr>wb := wb st @ [(points_title (sheet_index st + 1), [header_row, data_row row])],
           ws := length (wb st), sheet_index := sheet_index st + 1, rows_in_sheet := 2\<rparr>"
      using True by (rule write_row_new_sheet)
    have all: "\<forall>s \<in> set (wb st). length (snd s) = R"
    proof
      fix s assume "s \<in> set (wb st)"
      then have "s \<in> set (butlast (wb st) @ [last (wb st)])" using ne by simp
      then show "length (snd s) = R" using bl lastlen by auto
    qed
    show ?thesis unfolding rows_bounded_def st' using R all by simp
  next
    case False
    then have lt: "rows_in_sheet st < R" by simp
    obtain pre t rs where book: "wb st = pre @ [(t, rs)]"
      using ne by (metis append_butlast_last_id surj_pair)
    have st': "write_row R st row = st\<lparr>wb := pre @ [(t, rs @ [data_row row])],
         rows_in_sheet := rows_in_sheet st + 1\<rparr>"
      using write_row_same_sheet[OF ne _ lt, of row] wsi by (simp add: book)
    show ?thesis unfolding rows_bounded_def st' using lt bl by (simp add: book)
  qed
qed

lemma rows_bounded_fold:
  "2 \<le> R \<Longrightarrow> excel_inv st seen \<Longrightarrow> rows_bounded R st \<Longrightarrow>
     rows_bounded R (fold (\<lambda>row s. write_row R s row) rows st)"
proof (induction rows arbitrary: st seen)
  case Nil
  then show ?case by simp
next
  case (Cons row rows)
  have i: "excel_inv (write_row R st row) (seen @ [row])"
    using Cons.prems(2) by (rule excel_inv_step)
  have b: "rows_bounded R (write_row R st row)"
    using Cons.prems by (rule rows_bounded_step)
  from Cons.IH[OF Cons.prems(1) i b] show ?case by simp
qed

lemma rows_bounded_after: "2 \<le> R \<Longrightarrow> rows_bounded R (excel_after R seen)"
  using rows_bounded_fold[OF _ excel_inv_init rows_bounded_init, of R seen]
  by (simp add: excel_after_def)

lemma data_rows_full_sheets:
  "\<forall>s \<in> set ss. length (snd s) = R \<Longrightarrow>
     length (concat (map (tl \<circ> snd) ss)) = length ss * (R - 1)"
  by (induction ss) simp_all

lemma points_by_pages:
  assumes inv: "excel_inv st seen" and rb: "rows_bounded R st"
  shows "length seen = (length (wb st) - 1) * (R - 1) + (rows_in_sheet st - 1)"
proof -
  from inv have ne: "wb st \<noteq> []"
    and ris: "rows_in_sheet st = length (snd (last (wb st)))"
    and data: "concat (map (tl \<circ> snd) (wb st)) = map data_row seen"
    by (simp_all add: excel_inv_def)
  from rb have bl: "\<forall>s \<in> set (butlast (wb st)). length (snd s) = R"
    by (simp add: rows_bounded_def)
  from ne have split: "wb st = butlast (wb st) @ [last (wb st)]" by simp
  have "length seen = length (concat (map (tl \<circ> snd) (wb st)))" by (simp add: data)
  also have "\<dots> = length (concat (map (tl \<circ> snd) (butlast (wb st)))) + (length (snd (last (wb st))) - 1)"
    by (subst split) simp
  also have "\<dots> = (length (wb st) - 1) * (R - 1) + (rows_in_sheet st - 1)"
    using data_rows_full_sheets[OF bl] ris by simp
  finally show ?thesis .
qed

lemma page_count_arith:
  assumes b: "1 \<le> (b::nat)" and k: "1 \<le> k" and r: "r \<le> b" and kr: "1 < k \<longrightarrow> 1 \<le> r"
  shows "max 1 (((k - 1) * b + r + b - 1) div b) = k"
proof (cases "r = 0")
  case True
  with kr k have "k = 1" by auto
  with True b show ?thesis by simp
next
  case False
  then obtain r' where r': "r = Suc r'" by (cases r) auto
  with r have lt: "r' < b" by simp
  have "(k - 1) * b + r + b - 1 = r' + k * b"
    using k r' by (cases k) (simp_all add: algebra_simps)
  then have "((k - 1) * b + r + b - 1) div b = k" using lt b by simp
  with k show ?thesis by simp
qed

lemma pages_written:
  assumes R: "2 \<le> R" and inv: "excel_inv st seen" and rb: "rows_bounded R st"
  shows "length (wb st) = page_count R (length seen)"
proof -
  from inv have ne: "wb st \<noteq> []"
    and ris: "rows_in_sheet st = length (snd (last (wb st)))"
    and hd: "\<forall>s \<in> set (wb st). snd s \<noteq> [] \<and> hd (snd s) = header_row"
    and two: "\<forall>s \<in> set (tl (wb st)). 2 \<le> length (snd s)"
    by (simp_all add: excel_inv_def)
  from rb have le: "rows_in_sheet st \<le> R" by (simp add: rows_bounded_def)
  from ne have k: "1 \<le> length (wb st)" by (cases "wb st") auto
  have kr: "1 < length (wb st) \<longrightarrow> 1 \<le> rows_in_sheet st - 1"
  proof
    assume "1 < length (wb st)"
    then have "tl (wb st) \<noteq> []" by (cases "wb st") auto
    then have "last (wb st) \<in> set (tl (wb st))" using ne by (metis last_in_set last_tl)
    with two ris show "1 \<le> rows_in_sheet st - 1" by auto
  qed
  have "max 1 (((length (wb st) - 1) * (R - 1) + (rows_in_sheet st - 1) + (R - 1) - 1) div (R - 1)) = length (wb st)"
    by (rule page_count_arith) (use R k le kr in auto)
  then show ?thesis
    unfolding page_count_def points_by_pages[OF inv rb] by simp
qed

lemma clamp_nonpos: "c \<le> 0 \<Longrightarrow> max 1 (c::int) = max 1 1"
  by simp

lemma excel_after_one_sheet:
  assumes "2 \<le> R" and "length pts < R"
  shows "wb (excel_after R pts) = [(points_title 1, header_row # map data_row pts)]"
proof -
  let ?st = "excel_after R pts"
  have inv: "excel_inv ?st pts" by (rule excel_inv_after)
  have rb: "rows_bounded R ?st" using assms(1) by (rule rows_bounded_after)
  have "length (wb ?st) = page_count R (length pts)"
    using assms(1) inv rb by (rule pages_written)
  also have "\<dots> = 1"
  proof -
    from assms have "length pts + (R - 1) - 1 < 2 * (R - 1)" by simp
    then have "(length pts + (R - 1) - 1) div (R - 1) < 2"
      using assms(1) by (simp add: div_less_iff_less_mult)
    then show ?thesis by (simp add: page_count_def)
  qed
  finally obtain t rs where book: "wb ?st = [(t, rs)]"
    by (cases "wb ?st") auto
  from inv have "map fst (wb ?st) = map points_title [1..<length (wb ?st) + 1]"
    and "\<forall>s \<in> set (wb ?st). snd s \<noteq> [] \<and> hd (snd s) = header_row"
    and "concat (map (tl \<circ> snd) (wb ?st)) = map data_row pts"
    by (simp_all add: excel_inv_def)
  then have "t = points_title 1" "rs \<noteq> []" "hd rs = header_row" "tl rs = map data_row pts"
    by (simp_all add: book)
  then have "rs = header_row # map data_row pts" by (cases rs) auto
  with book \<open>t = points_title 1\<close> show ?thesis by simp
qed

lemma write_row_keeps_earlier_sheets:
  assumes "excel_inv st seen" and "n < length (wb st)"
  shows "take n (wb (write_row R st row)) = take n (wb st)"
proof -
  from assms(1) have ne: "wb st \<noteq> []" and wsi: "ws st = length (wb st) - 1"
    by (simp_all add: excel_inv_def)
  show ?thesis
  proof (cases "R \<le> rows_in_sheet st")
    case True
    from write_row_new_sheet[OF True, of row] assms(2) show ?thesis by simp
  next
    case False
    then have lt: "rows_in_sheet st < R" by simp
    from write_row_same_sheet[OF ne wsi lt, of row] assms(2) ne
    show ?thesis by (simp add: butlast_conv_take)
  qed
qed

lemma write_row_length_mono:
  assumes "excel_inv st seen"
  shows "length (wb st) \<le> length (wb (write_row R st row))"
proof -
  from assms have ne: "wb st \<noteq> []" and wsi: "ws st = length (wb st) - 1"
    by (simp_all add: excel_inv_def)
  show ?thesis
  proof (cases "R \<le> rows_in_sheet st")
    case True
    from write_row_new_sheet[OF True, of row] show ?thesis by simp
  next
    case False
    then have lt: "rows_in_sheet st < R" by simp
    from write_row_same_sheet[OF ne wsi lt, of row] ne show ?thesis by simp
  qed
qed

lemma fold_keeps_earlier_sheets:
  "excel_inv st seen \<Longrightarrow> n < length (wb st) \<Longrightarrow>
     take n (wb (fold (\<lambda>row s. write_row R s row) rows st)) = take n (wb st)"
proof (induction rows arbitrary: st seen)
  case Nil
  then show ?case by simp
next
  case (Cons row rows)
  have i: "excel_inv (write_row R st row) (seen @ [row])"
    using Cons.prems(1) by (rule excel_inv_step)
  have "n < length (wb (write_row R st row))"
    using Cons.prems(2) write_row_length_mono[OF Cons.prems(1), of R row] by simp
  from Cons.IH[OF i this] write_row_keeps_earlier_sheets[OF Cons.prems, of R row]
  show ?case by simp
qed

lemma titles_distinct: "distinct (map points_title [1..<n])"
  by (simp add: distinct_map inj_on_def points_title_inj)

section \<open>Lemmas: the page count of the specification\<close>

text \<open>\<open>spec_page_count R N\<close> is the least number of blocks of \<open>R - 1\<close> that cover \<open>N + 1\<close>.\<close>

lemma spec_page_count_ceiling:
  assumes "2 \<le> R"
  shows "N + 1 \<le> spec_page_count R N * (R - 1) \<and> spec_page_count R N * (R - 1) < N + 1 + (R - 1)"
proof -
  define b where "b = R - 1"
  define a where "a = N + 1 + b - 1"
  from assms have b: "0 < b" by (simp add: b_def)
  have k: "spec_page_count R N = a div b" by (simp add: spec_page_count_def a_def b_def)
  have "a div b * b + a mod b = a" by simp
  moreover have "a mod b < b" using b by simp
  ultimately have "a div b * b \<le> a" "a < a div b * b + b" by linarith+
  moreover have "a = N + b" using b by (simp add: a_def)
  ultimately have "N + 1 \<le> a div b * b \<and> a div b * b < N + 1 + b" by linarith
  then show ?thesis unfolding k b_def .
qed

section \<open>Lemmas: the worker\<close>

text \<open>
  The worker has no way out of its loop: for every selected file, whether its export
  returned or raised, the progress of that file is posted.
\<close>

lemma worker_loop_keeps_posted:
  "set posted \<subseteq> set (snd (snd (worker_loop self jobs (fs, ok, posted))))"
proof (induction jobs arbitrary: fs ok posted)
  case Nil
  then show ?case by simp
next
  case (Cons job jobs)
  obtain idx las_path where job: "job = (idx, las_path)" by (cases job)
  show ?case
  proof (cases "worker_job self fs las_path")
    case (Returned fs')
    with Cons.IH[of "posted @ [Progress idx]" fs' "ok + 1"] show ?thesis
      by (simp add: job)
  next
    case (Raised e fs')
    with Cons.IH[of "posted @ [ShowError las_path e, Progress idx]" fs' ok] show ?thesis
      by (simp add: job)
  qed
qed

lemma worker_loop_every_file:
  "(idx, las_path) \<in> set jobs \<Longrightarrow>
     Progress idx \<in> set (snd (snd (worker_loop self jobs (fs, ok, posted))))"
proof (induction jobs arbitrary: fs ok posted)
  case Nil
  then show ?case by simp
next
  case (Cons job jobs)
  obtain i p where job: "job = (i, p)" by (cases job)
  show ?case
  proof (cases "worker_job self fs p")
    case (Returned fs')
    show ?thesis
    proof (cases "(idx, las_path) = job")
      case True
      with worker_loop_keeps_posted[of "posted @ [Progress i]" self jobs fs' "ok + 1"] Returned job
      show ?thesis by auto
    next
      case False
      with Cons.prems have "(idx, las_path) \<in> set jobs" by simp
      from Cons.IH[OF this, of fs' "ok + 1" "posted @ [Progress i]"] Returned job
      show ?thesis by simp
    qed
  next
    case (Raised e fs')
    show ?thesis
    proof (cases "(idx, las_path) = job")
      case True
      with worker_loop_keeps_posted[of "posted @ [ShowError p e, Progress i]" self jobs fs' ok] Raised job
      show ?thesis by auto
    next
      case False
      with Cons.prems have "(idx, las_path) \<in> set jobs" by simp
      from Cons.IH[OF this, of fs' ok "posted @ [ShowError p e, Progress i]"] Raised job
      show ?thesis by simp
    qed
  qed
qed

lemma export_worker_every_file:
  assumes "i < length (selected_files self)"
  shows "Progress (Suc i) \<in> set (snd (export_worker self fs))"
proof -
  from assms have "(Suc i, selected_files self ! i) \<in> set (enumerate 1 (selected_files self))"
    by (simp add: in_set_enumerate_eq)
  from worker_loop_every_file[OF this, of self fs 0 "[]"]
  have p: "Progress (Suc i) \<in> set (snd (snd (worker_loop self (enumerate 1 (selected_files self)) (fs, 0, []))))" .
  obtain fs' ok posted where
    r: "worker_loop self (enumerate 1 (selected_files self)) (fs, 0, []) = (fs', ok, posted)"
    by (cases "worker_loop self (enumerate 1 (selected_files self)) (fs, 0, [])")
  from p[unfolded r] show ?thesis unfolding export_worker_def r by simp
qed

section \<open>Concrete runs\<close>

text \<open>The equations that evaluate an export on a given file system.\<close>

lemmas run_simps =
  export_las_to_csv_def export_las_to_excel_with_def laspy_open_def chunk_points_def
  chunk_iterator.simps request_def zip3_def writerows_def data_row_def excel_rows_def
  excel_init_def write_row_def create_sheet_def ws_append_def wb_save_def excel_after_def
  points_title_def str_nat.simps digit_char_def Let_def

section \<open>Row order and row count\<close>

text \<open>
  Claim C1 as worded fails in its count. A file whose header declares three points and
  whose point data holds two whole records is read without an error: both exports
  return, with two data rows where the declared point count is three.
\<close>

theorem export_rows_count_counterexample:
  "export_las_to_csv [''a.las'' \<mapsto> LasFile (Las 3 [(1::nat, 2, 3), (4, 5, 6)] None)]
       ''a.las'' ''a.csv'' 2
     = Returned [''a.las'' \<mapsto> LasFile (Las 3 [(1, 2, 3), (4, 5, 6)] None),
         ''a.csv'' \<mapsto> CsvFile [header_row, [Number 1, Number 2, Number 3],
           [Number 4, Number 5, Number 6]]] \<and>
   export_las_to_excel [''a.las'' \<mapsto> LasFile (Las 3 [(1::nat, 2, 3), (4, 5, 6)] None)]
       ''a.las'' ''a.xlsx'' 2
     = Returned [''a.las'' \<mapsto> LasFile (Las 3 [(1, 2, 3), (4, 5, 6)] None),
         ''a.xlsx'' \<mapsto> XlsxFile [(''Points_1'', [header_row, [Number 1, Number 2, Number 3],
           [Number 4, Number 5, Number 6]])]] \<and>
   length [[Number (1::nat), Number 2, Number 3], [Number 4, Number 5, Number 6]]
     \<noteq> point_count (Las 3 [(1::nat, 2, 3), (4, 5, 6)] None)"
proof -
  let ?l = "Las 3 [(1::nat, 2, 3), (4, 5, 6)] None"
  let ?fs = "[''a.las'' \<mapsto> LasFile ?l]"
  have r: "reads_to_end ?l" by (simp add: reads_to_end_def)
  have d: "decoded ?l = [(1, 2, 3), (4, 5, 6)]" by (simp add: decoded_def)
  have "export_las_to_csv ?fs ''a.las'' ''a.csv'' 2
      = Returned (?fs(''a.csv'' \<mapsto> CsvFile (header_row # map data_row (decoded ?l))))"
    by (rule csv_clean[OF _ r]) simp_all
  moreover have "map data_row (decoded ?l)
      = [[Number 1, Number 2, Number 3], [Number 4, Number 5, Number 6]]"
    by (simp add: decoded_def data_row_def)
  ultimately have a: "export_las_to_csv ?fs ''a.las'' ''a.csv'' 2
      = Returned (?fs(''a.csv'' \<mapsto> CsvFile [header_row, [Number 1, Number 2, Number 3],
           [Number 4, Number 5, Number 6]]))"
    by (simp only:)
  have "wb (excel_after EXCEL_MAX_ROWS (decoded ?l))
      = [(points_title 1, header_row # map data_row (decoded ?l))]"
    by (rule excel_after_one_sheet) (simp_all add: EXCEL_MAX_ROWS_def decoded_def)
  then have book: "wb (excel_after EXCEL_MAX_ROWS (decoded ?l))
      = [(''Points_1'', [header_row, [Number 1, Number 2, Number 3], [Number 4, Number 5, Number 6]])]"
    by (simp add: decoded_def points_title_def str_nat.simps digit_char_def data_row_def)
  have "export_las_to_excel ?fs ''a.las'' ''a.xlsx'' 2
      = Returned (?fs(''a.xlsx'' \<mapsto> XlsxFile (wb (excel_after EXCEL_MAX_ROWS (decoded ?l)))))"
    unfolding export_las_to_excel_def by (rule excel_clean[OF _ r]) simp_all
  then have b: "export_las_to_excel ?fs ''a.las'' ''a.xlsx'' 2
      = Returned (?fs(''a.xlsx'' \<mapsto> XlsxFile
          [(''Points_1'', [header_row, [Number 1, Number 2, Number 3], [Number 4, Number 5, Number 6]])]))"
    by (simp only: book)
  have c: "length [[Number (1::nat), Number 2, Number 3], [Number 4, Number 5, Number 6]]
     \<noteq> point_count ?l" by simp
  from a b c show ?thesis by blast
qed

text \<open>
  Claim C1, as the code has it. When an export returns, the data rows written are the
  rows of the points that the reader decodes, in input order, each once: the whole
  records that the file holds, up to the declared point count. The CSV file is the
  header followed by one row per such point, and the data rows of the workbook's
  sheets, read sheet after sheet, are the same list. Their number is the smaller of the
  declared point count and the number of whole records present, so it is the declared
  point count when the file holds that many records. Another chunk size, whatever it
  is, returns the same files.
\<close>

theorem export_rows_are_points:
  assumes "fs las_path = Some (LasFile l)"
  shows "(export_las_to_csv fs las_path csv_path c = Returned fs1 \<longrightarrow>
            fs1 = fs(csv_path \<mapsto>
              CsvFile (header_row # map data_row (take (point_count l) (readable l)))) \<and>
            length (map data_row (take (point_count l) (readable l)))
              = min (point_count l) (length (readable l)) \<and>
            export_las_to_csv fs las_path csv_path c' = Returned fs1) \<and>
         (export_las_to_excel_with R fs las_path xlsx_path c = Returned fs2 \<longrightarrow>
            fs2 = fs(xlsx_path \<mapsto> XlsxFile (wb (excel_after R (decoded l)))) \<and>
            (\<forall>s \<in> set (wb (excel_after R (decoded l))). snd s \<noteq> [] \<and> hd (snd s) = header_row) \<and>
            concat (map (tl \<circ> snd) (wb (excel_after R (decoded l))))
              = map data_row (take (point_count l) (readable l)) \<and>
            length (concat (map (tl \<circ> snd) (wb (excel_after R (decoded l)))))
              = min (point_count l) (length (readable l)) \<and>
            export_las_to_excel_with R fs las_path xlsx_path c' = Returned fs2) \<and>
         (point_count l \<le> length (readable l) \<longrightarrow>
            length (take (point_count l) (readable l)) = point_count l)"
proof (intro conjI impI)
  assume ok: "export_las_to_csv fs las_path csv_path c = Returned fs1"
  from csv_returned[OF ok] assms have
    p: "reads_to_end l" "las_path \<noteq> csv_path" "fs csv_path \<noteq> Some Directory"
    by auto
  from csv_clean[OF assms p, of c] ok
  show "fs1 = fs(csv_path \<mapsto> CsvFile (header_row # map data_row (take (point_count l) (readable l))))"
    by (simp add: decoded_def)
  from csv_clean[OF assms p, of c] csv_clean[OF assms p, of c'] ok
  show "export_las_to_csv fs las_path csv_path c' = Returned fs1" by simp
  show "length (map data_row (take (point_count l) (readable l)))
      = min (point_count l) (length (readable l))"
    by (simp add: min.commute)
next
  assume ok: "export_las_to_excel_with R fs las_path xlsx_path c = Returned fs2"
  from excel_returned[OF ok] assms have
    p: "reads_to_end l" "fs xlsx_path \<noteq> Some Directory"
    by auto
  from excel_clean[OF assms p, of R c] ok
  show "fs2 = fs(xlsx_path \<mapsto> XlsxFile (wb (excel_after R (decoded l))))"
    by simp
  from excel_clean[OF assms p, of R c] excel_clean[OF assms p, of R c'] ok
  show "export_las_to_excel_with R fs las_path xlsx_path c' = Returned fs2" by simp
  have inv: "excel_inv (excel_after R (decoded l)) (decoded l)" by (rule excel_inv_after)
  from inv show "\<forall>s \<in> set (wb (excel_after R (decoded l))). snd s \<noteq> [] \<and> hd (snd s) = header_row"
    by (simp add: excel_inv_def)
  from inv have "concat (map (tl \<circ> snd) (wb (excel_after R (decoded l)))) = map data_row (decoded l)"
    by (simp add: excel_inv_def)
  then show d: "concat (map (tl \<circ> snd) (wb (excel_after R (decoded l))))
      = map data_row (take (point_count l) (readable l))"
    by (simp only: decoded_def)
  show "length (concat (map (tl \<circ> snd) (wb (excel_after R (decoded l)))))
      = min (point_count l) (length (readable l))"
    by (simp only: d) (simp add: min.commute)
next
  assume "point_count l \<le> length (readable l)"
  then show "length (take (point_count l) (readable l)) = point_count l" by simp
qed

theorem export_rows_are_points_witness:
  "[''a.las'' \<mapsto> LasFile (Las 5 [(1::nat, 2, 3), (4, 5, 6), (7, 8, 9)] None)] ''a.las''
     = Some (LasFile (Las 5 [(1, 2, 3), (4, 5, 6), (7, 8, 9)] None)) \<and>
   export_las_to_csv [''a.las'' \<mapsto> LasFile (Las 5 [(1::nat, 2, 3), (4, 5, 6), (7, 8, 9)] None)]
       ''a.las'' ''a.csv'' 2
     = Returned [''a.las'' \<mapsto> LasFile (Las 5 [(1, 2, 3), (4, 5, 6), (7, 8, 9)] None),
         ''a.csv'' \<mapsto> CsvFile [header_row, [Number 1, Number 2, Number 3],
           [Number 4, Number 5, Number 6], [Number 7, Number 8, Number 9]]] \<and>
   export_las_to_csv [''a.las'' \<mapsto> LasFile (Las 5 [(1::nat, 2, 3), (4, 5, 6), (7, 8, 9)] None)]
       ''a.las'' ''a.csv'' 1
     = Returned [''a.las'' \<mapsto> LasFile (Las 5 [(1, 2, 3), (4, 5, 6), (7, 8, 9)] None),
         ''a.csv'' \<mapsto> CsvFile [header_row, [Number 1, Number 2, Number 3],
           [Number 4, Number 5, Number 6], [Number 7, Number 8, Number 9]]] \<and>
   export_las_to_excel_with 3 [''a.las'' \<mapsto> LasFile (Las 5 [(1::nat, 2, 3), (4, 5, 6), (7, 8, 9)] None)]
       ''a.las'' ''a.xlsx'' 2
     = Returned [''a.las'' \<mapsto> LasFile (Las 5 [(1, 2, 3), (4, 5, 6), (7, 8, 9)] None),
         ''a.xlsx'' \<mapsto> XlsxFile [(''Points_1'', [header_row, [Number 1, Number 2, Number 3],
           [Number 4, Number 5, Number 6]]), (''Points_2'', [header_row, [Number 7, Number 8, Number 9]])]] \<and>
   export_las_to_excel_with 3 [''a.las'' \<mapsto> LasFile (Las 5 [(1::nat, 2, 3), (4, 5, 6), (7, 8, 9)] None)]
       ''a.las'' ''a.xlsx'' 1
     = Returned [''a.las'' \<mapsto> LasFile (Las 5 [(1, 2, 3), (4, 5, 6), (7, 8, 9)] None),
         ''a.xlsx'' \<mapsto> XlsxFile [(''Points_1'', [header_row, [Number 1, Number 2, Number 3],
           [Number 4, Number 5, Number 6]]), (''Points_2'', [header_row, [Number 7, Number 8, Number 9]])]]"
proof -
  let ?l = "Las 5 [(1::nat, 2, 3), (4, 5, 6), (7, 8, 9)] None"
  let ?fs = "[''a.las'' \<mapsto> LasFile ?l]"
  let ?fc = "?fs(''a.csv'' \<mapsto> CsvFile [header_row, [Number 1, Number 2, Number 3],
           [Number 4, Number 5, Number 6], [Number 7, Number 8, Number 9]])"
  let ?fx = "?fs(''a.xlsx'' \<mapsto> XlsxFile [(''Points_1'', [header_row, [Number 1, Number 2, Number 3],
           [Number 4, Number 5, Number 6]]), (''Points_2'', [header_row, [Number 7, Number 8, Number 9]])])"
  have h: "?fs ''a.las'' = Some (LasFile ?l)" by simp
  have r: "reads_to_end ?l" by (simp add: reads_to_end_def)
  have d: "decoded ?l = [(1, 2, 3), (4, 5, 6), (7, 8, 9)]" by (simp add: decoded_def)
  have "export_las_to_csv ?fs ''a.las'' ''a.csv'' 2
      = Returned (?fs(''a.csv'' \<mapsto> CsvFile (header_row # map data_row (decoded ?l))))"
    by (rule csv_clean[OF _ r]) simp_all
  moreover have "map data_row (decoded ?l)
      = [[Number 1, Number 2, Number 3], [Number 4, Number 5, Number 6], [Number 7, Number 8, Number 9]]"
    by (simp add: decoded_def data_row_def)
  ultimately have c: "export_las_to_csv ?fs ''a.las'' ''a.csv'' 2 = Returned ?fc"
    by (simp only:)
  have book: "wb (excel_after 3 [(1::nat, 2::nat, 3::nat), (4, 5, 6), (7, 8, 9)])
      = [(''Points_1'', [header_row, [Number 1, Number 2, Number 3],
           [Number 4, Number 5, Number 6]]), (''Points_2'', [header_row, [Number 7, Number 8, Number 9]])]"
    by code_simp
  have "export_las_to_excel_with 3 ?fs ''a.las'' ''a.xlsx'' 2
      = Returned (?fs(''a.xlsx'' \<mapsto> XlsxFile (wb (excel_after 3 (decoded ?l)))))"
    by (rule excel_clean[OF _ r]) simp_all
  then have x: "export_las_to_excel_with 3 ?fs ''a.las'' ''a.xlsx'' 2 = Returned ?fx"
    by (simp only: d book)
  from export_rows_are_points[where fs = ?fs and las_path = "''a.las''" and l = ?l
      and csv_path = "''a.csv''" and c = 2 and ?fs1.0 = ?fc and c' = 1 and R = 3
      and xlsx_path = "''a.xlsx''" and ?fs2.0 = ?fx, OF h] c x
  have "export_las_to_csv ?fs ''a.las'' ''a.csv'' 1 = Returned ?fc"
    and "export_las_to_excel_with 3 ?fs ''a.las'' ''a.xlsx'' 1 = Returned ?fx"
    by blast+
  with h c x show ?thesis by blast
qed

section \<open>An input without points\<close>

text \<open>
  Claim C5. For a LAS file with zero points, whether its header declares none or it
  declares some and holds no record, the CSV export returns and leaves one file whose
  only row is the header \<open>EASTING, NORTHING, ELEVATION\<close>, and the Excel export returns
  and saves a workbook with the single sheet \<open>Points_1\<close> whose only row is that header.
  The destination must not be a directory, and for the CSV export it must not be the
  input itself, which \<open>open(csv_path, "w")\<close> would empty before laspy reads it.
\<close>

theorem zero_points_header_only:
  assumes "fs las_path = Some (LasFile l)"
    and "point_count l = 0 \<or> (readable l = [] \<and> cut_record l = None)"
    and "fs out_path \<noteq> Some Directory"
  shows "(las_path \<noteq> out_path \<longrightarrow>
            export_las_to_csv fs las_path out_path c
              = Returned (fs(out_path \<mapsto> CsvFile [[Text ''EASTING'', Text ''NORTHING'', Text ''ELEVATION'']]))) \<and>
         export_las_to_excel fs las_path out_path c
           = Returned (fs(out_path \<mapsto>
               XlsxFile [(''Points_1'', [[Text ''EASTING'', Text ''NORTHING'', Text ''ELEVATION'']])]))"
proof -
  from assms(2) have r: "reads_to_end l" by (auto simp: reads_to_end_def)
  from assms(2) have d: "decoded l = []" by (auto simp: decoded_def)
  have csv: "las_path \<noteq> out_path \<longrightarrow>
            export_las_to_csv fs las_path out_path c
              = Returned (fs(out_path \<mapsto> CsvFile [[Text ''EASTING'', Text ''NORTHING'', Text ''ELEVATION'']]))"
  proof
    assume "las_path \<noteq> out_path"
    from csv_clean[OF assms(1) r this assms(3), of c]
    show "export_las_to_csv fs las_path out_path c
            = Returned (fs(out_path \<mapsto> CsvFile [[Text ''EASTING'', Text ''NORTHING'', Text ''ELEVATION'']]))"
      by (simp add: d header_row_def)
  qed
  have "wb (excel_after EXCEL_MAX_ROWS ([] :: 'a point list))
          = [(''Points_1'', [[Text ''EASTING'', Text ''NORTHING'', Text ''ELEVATION'']])]"
    by (simp add: excel_after_def excel_init_def create_sheet_def ws_append_def header_row_def
        points_title_def str_nat.simps digit_char_def)
  with excel_clean[OF assms(1) r assms(3), of EXCEL_MAX_ROWS c]
  have xlsx: "export_las_to_excel fs las_path out_path c
          = Returned (fs(out_path \<mapsto>
              XlsxFile [(''Points_1'', [[Text ''EASTING'', Text ''NORTHING'', Text ''ELEVATION'']])]))"
    by (simp add: export_las_to_excel_def d)
  from csv xlsx show ?thesis by (rule conjI)
qed

theorem zero_points_header_only_witness:
  "[''empty.las'' \<mapsto> LasFile (Las 0 ([] :: nat point list) None)] ''empty.las''
     = Some (LasFile (Las 0 [] None)) \<and>
   (point_count (Las 0 ([] :: nat point list) None) = 0 \<or>
    (readable (Las 0 ([] :: nat point list) None) = [] \<and> cut_record (Las 0 ([] :: nat point list) None) = None)) \<and>
   [''empty.las'' \<mapsto> LasFile (Las 0 ([] :: nat point list) None)] ''out'' \<noteq> Some Directory \<and>
   ''empty.las'' \<noteq> ''out'' \<and>
   export_las_to_csv [''empty.las'' \<mapsto> LasFile (Las 0 ([] :: nat point list) None)] ''empty.las'' ''out'' 1000000
     = Returned [''empty.las'' \<mapsto> LasFile (Las 0 [] None),
         ''out'' \<mapsto> CsvFile [[Text ''EASTING'', Text ''NORTHING'', Text ''ELEVATION'']]] \<and>
   export_las_to_excel [''empty.las'' \<mapsto> LasFile (Las 0 ([] :: nat point list) None)] ''empty.las'' ''out'' 500000
     = Returned [''empty.las'' \<mapsto> LasFile (Las 0 [] None),
         ''out'' \<mapsto> XlsxFile [(''Points_1'', [[Text ''EASTING'', Text ''NORTHING'', Text ''ELEVATION'']])]]"
proof -
  let ?l = "Las 0 ([] :: nat point list) None"
  let ?fs = "[''empty.las'' \<mapsto> LasFile ?l]"
  have h1: "?fs ''empty.las'' = Some (LasFile ?l)" by simp
  have h2: "point_count ?l = 0 \<or> (readable ?l = [] \<and> cut_record ?l = None)" by simp
  have h3: "?fs ''out'' \<noteq> Some Directory" by simp
  have h4: "''empty.las'' \<noteq> ''out''" by simp
  from zero_points_header_only[of ?fs "''empty.las''" ?l "''out''" 1000000, OF h1 h2 h3] h4
  have a: "export_las_to_csv ?fs ''empty.las'' ''out'' 1000000
     = Returned (?fs(''out'' \<mapsto> CsvFile [[Text ''EASTING'', Text ''NORTHING'', Text ''ELEVATION'']]))"
    by blast
  from zero_points_header_only[of ?fs "''empty.las''" ?l "''out''" 500000, OF h1 h2 h3]
  have b: "export_las_to_excel ?fs ''empty.las'' ''out'' 500000
     = Returned (?fs(''out'' \<mapsto> XlsxFile [(''Points_1'', [[Text ''EASTING'', Text ''NORTHING'', Text ''ELEVATION'']])]))"
    by blast
  from h1 h2 h3 h4 a b show ?thesis by blast
qed

section \<open>The chunk size\<close>

text \<open>
  Claim C9. Both exports call the reader with \<open>max(1, chunk_size)\<close>: a chunk size of
  zero or less behaves as the chunk size 1. On an input that is read to its end, a
  complete file among them, the export returns for every chunk size with all rows
  written, and every chunk that the reader hands over holds at least one point and at
  most the clamped size, so every round of the loop consumes points. All functions of
  the model are total: \<open>chunk_iterator\<close> is defined by recursion on the number of
  points left to read, with its termination proved.
\<close>

theorem chunk_size_clamped:
  "(c \<le> 0 \<longrightarrow>
      export_las_to_csv fs las_path out_path c = export_las_to_csv fs las_path out_path 1 \<and>
      export_las_to_excel_with R fs las_path out_path c = export_las_to_excel_with R fs las_path out_path 1) \<and>
   (fs las_path = Some (LasFile l) \<and> reads_to_end l \<and>
    fs out_path \<noteq> Some Directory \<and> las_path \<noteq> out_path \<longrightarrow>
      export_las_to_csv fs las_path out_path c
        = Returned (fs(out_path \<mapsto> CsvFile (header_row # map data_row (decoded l)))) \<and>
      export_las_to_excel_with R fs las_path out_path c
        = Returned (fs(out_path \<mapsto> XlsxFile (wb (excel_after R (decoded l)))))) \<and>
   (\<forall>ch \<in> set (fst (chunk_points reader (max 1 c))).
      1 \<le> length (fst ch) \<and> length (fst ch) \<le> nat (max 1 c))"
proof (intro conjI impI ballI)
  assume c: "c \<le> 0"
  show "export_las_to_csv fs las_path out_path c = export_las_to_csv fs las_path out_path 1"
    unfolding export_las_to_csv_def clamp_nonpos[OF c] ..
  show "export_las_to_excel_with R fs las_path out_path c = export_las_to_excel_with R fs las_path out_path 1"
    unfolding export_las_to_excel_with_def clamp_nonpos[OF c] ..
next
  assume h: "fs las_path = Some (LasFile l) \<and> reads_to_end l \<and>
    fs out_path \<noteq> Some Directory \<and> las_path \<noteq> out_path"
  then show "export_las_to_csv fs las_path out_path c
        = Returned (fs(out_path \<mapsto> CsvFile (header_row # map data_row (decoded l))))"
    by (simp add: csv_clean)
  from h show "export_las_to_excel_with R fs las_path out_path c
        = Returned (fs(out_path \<mapsto> XlsxFile (wb (excel_after R (decoded l)))))"
    by (simp add: excel_clean)
next
  fix ch assume ch: "ch \<in> set (fst (chunk_points reader (max 1 c)))"
  obtain chunks err where
    ci: "chunk_iterator (readable reader) (cut_record reader) (point_count reader) (max 1 c) = (chunks, err)"
    by (meson surj_pair)
  from chunk_iterator_nonempty[OF clamp_pos ci]
  have ne: "\<forall>points \<in> set chunks. points \<noteq> [] \<and> length points \<le> nat (max 1 c)" .
  from ch ci obtain points where "points \<in> set chunks" "fst ch = map fst points"
    by (auto simp: chunk_points_def)
  with ne have "fst ch \<noteq> []" "length (fst ch) \<le> nat (max 1 c)" by auto
  then show "1 \<le> length (fst ch)" "length (fst ch) \<le> nat (max 1 c)"
    by (simp_all add: Suc_le_eq)
qed

theorem chunk_size_clamped_witness:
  "(-5::int) \<le> 0 \<and>
   [''a.las'' \<mapsto> LasFile (Las 2 [(1::nat, 2, 3), (4, 5, 6)] None)] ''a.las''
     = Some (LasFile (Las 2 [(1, 2, 3), (4, 5, 6)] None)) \<and>
   reads_to_end (Las 2 [(1::nat, 2, 3), (4, 5, 6)] None) \<and>
   [''a.las'' \<mapsto> LasFile (Las 2 [(1::nat, 2, 3), (4, 5, 6)] None)] ''a.csv'' \<noteq> Some Directory \<and>
   ''a.las'' \<noteq> ''a.csv'' \<and>
   ([1::nat], [2], [3]) \<in> set (fst (chunk_points (Las 2 [(1::nat, 2, 3), (4, 5, 6)] None) (max 1 (-5)))) \<and>
   length (fst ([1::nat], [2::nat], [3::nat])) = 1 \<and>
   export_las_to_csv [''a.las'' \<mapsto> LasFile (Las 2 [(1::nat, 2, 3), (4, 5, 6)] None)] ''a.las'' ''a.csv'' (-5)
     = export_las_to_csv [''a.las'' \<mapsto> LasFile (Las 2 [(1::nat, 2, 3), (4, 5, 6)] None)] ''a.las'' ''a.csv'' 1 \<and>
   export_las_to_csv [''a.las'' \<mapsto> LasFile (Las 2 [(1::nat, 2, 3), (4, 5, 6)] None)] ''a.las'' ''a.csv'' (-5)
     = Returned [''a.las'' \<mapsto> LasFile (Las 2 [(1, 2, 3), (4, 5, 6)] None),
         ''a.csv'' \<mapsto> CsvFile [header_row, [Number 1, Number 2, Number 3], [Number 4, Number 5, Number 6]]]"
proof -
  let ?l = "Las 2 [(1::nat, 2, 3), (4, 5, 6)] None"
  let ?fs = "[''a.las'' \<mapsto> LasFile ?l]"
  have h0: "(-5::int) \<le> 0" by simp
  have h1: "?fs ''a.las'' = Some (LasFile ?l)" by simp
  have hr: "reads_to_end ?l" by (simp add: reads_to_end_def)
  have h2: "?fs ''a.csv'' \<noteq> Some Directory" by simp
  have h3: "''a.las'' \<noteq> ''a.csv''" by simp
  have h4: "([1::nat], [2], [3]) \<in> set (fst (chunk_points ?l (max 1 (-5))))"
    by (simp add: chunk_points_def chunk_iterator.simps request_def)
  note t = chunk_size_clamped[where c = "-5" and fs = ?fs and las_path = "''a.las''"
      and out_path = "''a.csv''" and l = ?l and R = 3 and reader = ?l]
  from t h0 have a: "export_las_to_csv ?fs ''a.las'' ''a.csv'' (-5) = export_las_to_csv ?fs ''a.las'' ''a.csv'' 1"
    by blast
  from t h1 hr h2 h3 have "export_las_to_csv ?fs ''a.las'' ''a.csv'' (-5)
     = Returned (?fs(''a.csv'' \<mapsto> CsvFile (header_row # map data_row (decoded ?l))))"
    by blast
  moreover have "map data_row (decoded ?l) = [[Number 1, Number 2, Number 3], [Number 4, Number 5, Number 6]]"
    by (simp add: decoded_def data_row_def)
  ultimately have b: "export_las_to_csv ?fs ''a.las'' ''a.csv'' (-5)
     = Returned (?fs(''a.csv'' \<mapsto> CsvFile [header_row, [Number 1, Number 2, Number 3], [Number 4, Number 5, Number 6]]))"
    by (simp only:)
  from t h4 have c: "1 \<le> length (fst ([1::nat], [2::nat], [3::nat]))" by blast
  then have c': "length (fst ([1::nat], [2::nat], [3::nat])) = 1" by simp
  from h0 h1 hr h2 h3 h4 a b c' show ?thesis by blast
qed

section \<open>Running an export twice\<close>

text \<open>
  Claim C7. Run the same export of the same input twice, each time to a path that does
  not exist yet, one run after the other. The file the second run leaves at its
  destination is the file the first run left at its own, the first file is untouched,
  and both runs end the same way. For the Excel export the two workbooks are equal, and
  so are their sheet titles; when the reader raises, neither run writes a workbook.
\<close>

theorem export_twice_same_content:
  assumes "fs las_path = Some (LasFile l)" and "fs q1 = None" and "fs q2 = None" and "q1 \<noteq> q2"
  shows "(let run1 = export_las_to_csv fs las_path q1 c;
              run2 = export_las_to_csv (state_of run1) las_path q2 c
          in state_of run2 q2 = state_of run1 q1 \<and> state_of run2 q1 = state_of run1 q1 \<and>
             state_of run1 q1 \<noteq> None \<and> raised run2 = raised run1) \<and>
         (let run1 = export_las_to_excel fs las_path q1 c;
              run2 = export_las_to_excel (state_of run1) las_path q2 c
          in state_of run2 q2 = state_of run1 q1 \<and> state_of run2 q1 = state_of run1 q1 \<and>
             page_titles (state_of run2 q2) = page_titles (state_of run1 q1) \<and>
             raised run2 = raised run1)"
proof -
  from assms have p1: "las_path \<noteq> q1" and p2: "las_path \<noteq> q2" by auto
  from assms have d1: "fs q1 \<noteq> Some Directory" and d2: "fs q2 \<noteq> Some Directory" by auto
  show ?thesis
  proof (cases "reads_to_end l")
    case r: True
    let ?c1 = "fs(q1 \<mapsto> CsvFile (header_row # map data_row (decoded l)))"
    let ?x1 = "fs(q1 \<mapsto> XlsxFile (wb (excel_after EXCEL_MAX_ROWS (decoded l))))"
    have c1: "export_las_to_csv fs las_path q1 c = Returned ?c1"
      using assms(1) r p1 d1 by (rule csv_clean)
    have x1: "export_las_to_excel fs las_path q1 c = Returned ?x1"
      unfolding export_las_to_excel_def using assms(1) r d1 by (rule excel_clean)
    from assms(1) p1 have fc: "?c1 las_path = Some (LasFile l)" by simp
    from assms(1) p1 have fx: "?x1 las_path = Some (LasFile l)" by simp
    from assms have dc: "?c1 q2 \<noteq> Some Directory" and dx: "?x1 q2 \<noteq> Some Directory" by auto
    have c2: "export_las_to_csv ?c1 las_path q2 c
        = Returned (?c1(q2 \<mapsto> CsvFile (header_row # map data_row (decoded l))))"
      using fc r p2 dc by (rule csv_clean)
    have x2: "export_las_to_excel ?x1 las_path q2 c
        = Returned (?x1(q2 \<mapsto> XlsxFile (wb (excel_after EXCEL_MAX_ROWS (decoded l)))))"
      unfolding export_las_to_excel_def using fx r dx by (rule excel_clean)
    from assms(4) show ?thesis
      by (simp add: Let_def c1 c2 x1 x2)
  next
    case False
    then obtain e where e: "cut_record l = Some e" "length (readable l) < point_count l"
      by (auto simp: not_reads_to_end)
    let ?rows = "header_row # map data_row
        (take (length (readable l) div nat (max 1 c) * nat (max 1 c)) (readable l))"
    let ?c1 = "fs(q1 \<mapsto> CsvFile ?rows)"
    have c1: "export_las_to_csv fs las_path q1 c = Raised e ?c1"
      using assms(1) e p1 d1 by (rule csv_cut)
    have x1: "export_las_to_excel fs las_path q1 c = Raised e fs"
      unfolding export_las_to_excel_def using assms(1) e by (rule excel_cut)
    from assms(1) p1 have fc: "?c1 las_path = Some (LasFile l)" by simp
    from assms have dc: "?c1 q2 \<noteq> Some Directory" by auto
    have c2: "export_las_to_csv ?c1 las_path q2 c = Raised e (?c1(q2 \<mapsto> CsvFile ?rows))"
      using fc e p2 dc by (rule csv_cut)
    have x2: "export_las_to_excel fs las_path q2 c = Raised e fs"
      unfolding export_las_to_excel_def using assms(1) e by (rule excel_cut)
    from assms show ?thesis
      by (simp add: Let_def c1 c2 x1 x2)
  qed
qed

theorem export_twice_same_content_witness:
  "[''a.las'' \<mapsto> LasFile (Las 1 [(1::nat, 2, 3)] None)] ''a.las'' = Some (LasFile (Las 1 [(1, 2, 3)] None)) \<and>
   [''a.las'' \<mapsto> LasFile (Las 1 [(1::nat, 2, 3)] None)] ''o1'' = None \<and>
   [''a.las'' \<mapsto> LasFile (Las 1 [(1::nat, 2, 3)] None)] ''o2'' = None \<and>
   ''o1'' \<noteq> ''o2'' \<and>
   state_of (export_las_to_csv (state_of (export_las_to_csv
       [''a.las'' \<mapsto> LasFile (Las 1 [(1::nat, 2, 3)] None)] ''a.las'' ''o1'' 2)) ''a.las'' ''o2'' 2) ''o2''
     = state_of (export_las_to_csv
       [''a.las'' \<mapsto> LasFile (Las 1 [(1::nat, 2, 3)] None)] ''a.las'' ''o1'' 2) ''o1'' \<and>
   page_titles (state_of (export_las_to_excel (state_of (export_las_to_excel
       [''a.las'' \<mapsto> LasFile (Las 1 [(1::nat, 2, 3)] None)] ''a.las'' ''o1'' 2)) ''a.las'' ''o2'' 2) ''o2'')
     = page_titles (state_of (export_las_to_excel
       [''a.las'' \<mapsto> LasFile (Las 1 [(1::nat, 2, 3)] None)] ''a.las'' ''o1'' 2) ''o1'')"
proof -
  let ?fs = "[''a.las'' \<mapsto> LasFile (Las 1 [(1::nat, 2, 3)] None)]"
  have h1: "?fs ''a.las'' = Some (LasFile (Las 1 [(1, 2, 3)] None))" by simp
  have h2: "?fs ''o1'' = None" by simp
  have h3: "?fs ''o2'' = None" by simp
  have h4: "''o1'' \<noteq> ''o2''" by simp
  note t = export_twice_same_content[OF h1 h2 h3 h4, of 2, unfolded Let_def]
  from t have a: "state_of (export_las_to_csv (state_of (export_las_to_csv ?fs ''a.las'' ''o1'' 2))
       ''a.las'' ''o2'' 2) ''o2'' = state_of (export_las_to_csv ?fs ''a.las'' ''o1'' 2) ''o1''"
    by blast
  from t have b: "page_titles (state_of (export_las_to_excel (state_of (export_las_to_excel ?fs ''a.las'' ''o1'' 2))
       ''a.las'' ''o2'' 2) ''o2'') = page_titles (state_of (export_las_to_excel ?fs ''a.las'' ''o1'' 2) ''o1'')"
    by blast
  from h1 h2 h3 h4 a b show ?thesis by blast
qed

section \<open>A short input\<close>

text \<open>
  Claim C4 as worded fails. A file whose header declares three points and whose point
  data holds two whole records is shorter than declared, and no export of it fails: the
  reader hands over the two points and stops, the CSV export returns with the header
  and two rows, and the Excel export returns and saves a workbook with them.
\<close>

theorem truncated_input_counterexample:
  "raised (export_las_to_csv [''a.las'' \<mapsto> LasFile (Las 3 [(1::nat, 2, 3), (4, 5, 6)] None)]
       ''a.las'' ''a.csv'' 1) = None \<and>
   state_of (export_las_to_csv [''a.las'' \<mapsto> LasFile (Las 3 [(1::nat, 2, 3), (4, 5, 6)] None)]
       ''a.las'' ''a.csv'' 1) ''a.csv''
     = Some (CsvFile [header_row, [Number 1, Number 2, Number 3], [Number 4, Number 5, Number 6]]) \<and>
   raised (export_las_to_excel [''a.las'' \<mapsto> LasFile (Las 3 [(1::nat, 2, 3), (4, 5, 6)] None)]
       ''a.las'' ''a.xlsx'' 1) = None \<and>
   state_of (export_las_to_excel [''a.las'' \<mapsto> LasFile (Las 3 [(1::nat, 2, 3), (4, 5, 6)] None)]
       ''a.las'' ''a.xlsx'' 1) ''a.xlsx''
     = Some (XlsxFile [(''Points_1'', [header_row, [Number 1, Number 2, Number 3],
         [Number 4, Number 5, Number 6]])])"
proof -
  let ?l = "Las 3 [(1::nat, 2, 3), (4, 5, 6)] None"
  let ?fs = "[''a.las'' \<mapsto> LasFile ?l]"
  have r: "reads_to_end ?l" by (simp add: reads_to_end_def)
  have rows: "map data_row (decoded ?l) = [[Number 1, Number 2, Number 3], [Number 4, Number 5, Number 6]]"
    by (simp add: decoded_def data_row_def)
  have "export_las_to_csv ?fs ''a.las'' ''a.csv'' 1
      = Returned (?fs(''a.csv'' \<mapsto> CsvFile (header_row # map data_row (decoded ?l))))"
    by (rule csv_clean[OF _ r]) simp_all
  then have a: "export_las_to_csv ?fs ''a.las'' ''a.csv'' 1
      = Returned (?fs(''a.csv'' \<mapsto> CsvFile [header_row, [Number 1, Number 2, Number 3],
           [Number 4, Number 5, Number 6]]))"
    by (simp only: rows)
  have "wb (excel_after EXCEL_MAX_ROWS (decoded ?l))
      = [(points_title 1, header_row # map data_row (decoded ?l))]"
    by (rule excel_after_one_sheet) (simp_all add: EXCEL_MAX_ROWS_def decoded_def)
  then have book: "wb (excel_after EXCEL_MAX_ROWS (decoded ?l))
      = [(''Points_1'', [header_row, [Number 1, Number 2, Number 3], [Number 4, Number 5, Number 6]])]"
    by (simp add: decoded_def data_row_def points_title_def str_nat.simps digit_char_def)
  have "export_las_to_excel ?fs ''a.las'' ''a.xlsx'' 1
      = Returned (?fs(''a.xlsx'' \<mapsto> XlsxFile (wb (excel_after EXCEL_MAX_ROWS (decoded ?l)))))"
    unfolding export_las_to_excel_def by (rule excel_clean[OF _ r]) simp_all
  then have b: "export_las_to_excel ?fs ''a.las'' ''a.xlsx'' 1
      = Returned (?fs(''a.xlsx'' \<mapsto> XlsxFile
          [(''Points_1'', [header_row, [Number 1, Number 2, Number 3], [Number 4, Number 5, Number 6]])]))"
    by (simp only: book)
  show ?thesis unfolding a b by simp
qed

text \<open>
  Claim C4, as the code has it. Take a file that holds fewer whole records than its
  header declares. When its point data ends inside a record, the read that takes in
  the cut record raises and the export raises the same exception; the Excel export has
  written nothing then, since \<open>wb.save\<close> is not reached, and the CSV export, which has
  opened its file before reading, leaves it closed with the header and the rows of the
  chunks that were read in full. When its point data ends at a record boundary, nothing
  raises: both exports return, with the header and one row per record present.
\<close>

theorem truncated_input_outputs:
  assumes "fs las_path = Some (LasFile l)" and "length (readable l) < point_count l"
  shows "(cut_record l = Some e \<longrightarrow>
            export_las_to_excel fs las_path xlsx_path c = Raised e fs \<and>
            (las_path \<noteq> csv_path \<and> fs csv_path \<noteq> Some Directory \<longrightarrow>
               export_las_to_csv fs las_path csv_path c
                 = Raised e (fs(csv_path \<mapsto> CsvFile (header_row # map data_row
                     (take (length (readable l) div nat (max 1 c) * nat (max 1 c)) (readable l))))))) \<and>
         (cut_record l = None \<longrightarrow>
            (fs xlsx_path \<noteq> Some Directory \<longrightarrow>
               export_las_to_excel fs las_path xlsx_path c
                 = Returned (fs(xlsx_path \<mapsto> XlsxFile (wb (excel_after EXCEL_MAX_ROWS (readable l)))))) \<and>
            (las_path \<noteq> csv_path \<and> fs csv_path \<noteq> Some Directory \<longrightarrow>
               export_las_to_csv fs las_path csv_path c
                 = Returned (fs(csv_path \<mapsto> CsvFile (header_row # map data_row (readable l))))))"
proof -
  have torn: "cut_record l = Some e \<longrightarrow>
            export_las_to_excel fs las_path xlsx_path c = Raised e fs \<and>
            (las_path \<noteq> csv_path \<and> fs csv_path \<noteq> Some Directory \<longrightarrow>
               export_las_to_csv fs las_path csv_path c
                 = Raised e (fs(csv_path \<mapsto> CsvFile (header_row # map data_row
                     (take (length (readable l) div nat (max 1 c) * nat (max 1 c)) (readable l))))))"
  proof (intro impI conjI)
    assume e: "cut_record l = Some e"
    show "export_las_to_excel fs las_path xlsx_path c = Raised e fs"
      unfolding export_las_to_excel_def using assms(1) e assms(2) by (rule excel_cut)
    assume "las_path \<noteq> csv_path \<and> fs csv_path \<noteq> Some Directory"
    then have "las_path \<noteq> csv_path" "fs csv_path \<noteq> Some Directory" by simp_all
    with assms(1) e assms(2)
    show "export_las_to_csv fs las_path csv_path c
        = Raised e (fs(csv_path \<mapsto> CsvFile (header_row # map data_row
            (take (length (readable l) div nat (max 1 c) * nat (max 1 c)) (readable l)))))"
      by (rule csv_cut)
  qed
  have whole: "cut_record l = None \<longrightarrow>
            (fs xlsx_path \<noteq> Some Directory \<longrightarrow>
               export_las_to_excel fs las_path xlsx_path c
                 = Returned (fs(xlsx_path \<mapsto> XlsxFile (wb (excel_after EXCEL_MAX_ROWS (readable l)))))) \<and>
            (las_path \<noteq> csv_path \<and> fs csv_path \<noteq> Some Directory \<longrightarrow>
               export_las_to_csv fs las_path csv_path c
                 = Returned (fs(csv_path \<mapsto> CsvFile (header_row # map data_row (readable l)))))"
  proof
    assume n: "cut_record l = None"
    then have r: "reads_to_end l" by (simp add: reads_to_end_def)
    from assms(2) have d: "decoded l = readable l" by (simp add: decoded_def)
    have xlsx: "fs xlsx_path \<noteq> Some Directory \<longrightarrow>
        export_las_to_excel fs las_path xlsx_path c
          = Returned (fs(xlsx_path \<mapsto> XlsxFile (wb (excel_after EXCEL_MAX_ROWS (readable l)))))"
    proof
      assume "fs xlsx_path \<noteq> Some Directory"
      from excel_clean[OF assms(1) r this, of EXCEL_MAX_ROWS c]
      show "export_las_to_excel fs las_path xlsx_path c
          = Returned (fs(xlsx_path \<mapsto> XlsxFile (wb (excel_after EXCEL_MAX_ROWS (readable l)))))"
        by (simp add: export_las_to_excel_def d)
    qed
    have csv: "las_path \<noteq> csv_path \<and> fs csv_path \<noteq> Some Directory \<longrightarrow>
        export_las_to_csv fs las_path csv_path c
          = Returned (fs(csv_path \<mapsto> CsvFile (header_row # map data_row (readable l))))"
    proof
      assume "las_path \<noteq> csv_path \<and> fs csv_path \<noteq> Some Directory"
      then have "las_path \<noteq> csv_path" "fs csv_path \<noteq> Some Directory" by simp_all
      from csv_clean[OF assms(1) r this, of c]
      show "export_las_to_csv fs las_path csv_path c
          = Returned (fs(csv_path \<mapsto> CsvFile (header_row # map data_row (readable l))))"
        by (simp add: d)
    qed
    from xlsx csv
    show "(fs xlsx_path \<noteq> Some Directory \<longrightarrow>
             export_las_to_excel fs las_path xlsx_path c
               = Returned (fs(xlsx_path \<mapsto> XlsxFile (wb (excel_after EXCEL_MAX_ROWS (readable l)))))) \<and>
          (las_path \<noteq> csv_path \<and> fs csv_path \<noteq> Some Directory \<longrightarrow>
             export_las_to_csv fs las_path csv_path c
               = Returned (fs(csv_path \<mapsto> CsvFile (header_row # map data_row (readable l)))))"
      by (rule conjI)
  qed
  from torn whole show ?thesis by (rule conjI)
qed

theorem truncated_input_outputs_witness:
  "[''cut.las'' \<mapsto> LasFile (Las 4 [(1::nat, 2, 3), (4, 5, 6), (7, 8, 9)] (Some (ValueError ''buffer size''))),
    ''short.las'' \<mapsto> LasFile (Las 4 [(1::nat, 2, 3), (4, 5, 6), (7, 8, 9)] None)] ''cut.las''
     = Some (LasFile (Las 4 [(1, 2, 3), (4, 5, 6), (7, 8, 9)] (Some (ValueError ''buffer size'')))) \<and>
   length (readable (Las 4 [(1::nat, 2, 3), (4, 5, 6), (7, 8, 9)] (Some (ValueError ''buffer size''))))
     < point_count (Las 4 [(1::nat, 2, 3), (4, 5, 6), (7, 8, 9)] (Some (ValueError ''buffer size''))) \<and>
   raised (export_las_to_excel
       [''cut.las'' \<mapsto> LasFile (Las 4 [(1::nat, 2, 3), (4, 5, 6), (7, 8, 9)] (Some (ValueError ''buffer size''))),
        ''short.las'' \<mapsto> LasFile (Las 4 [(1::nat, 2, 3), (4, 5, 6), (7, 8, 9)] None)]
       ''cut.las'' ''a.xlsx'' 2) = Some (ValueError ''buffer size'') \<and>
   state_of (export_las_to_excel
       [''cut.las'' \<mapsto> LasFile (Las 4 [(1::nat, 2, 3), (4, 5, 6), (7, 8, 9)] (Some (ValueError ''buffer size''))),
        ''short.las'' \<mapsto> LasFile (Las 4 [(1::nat, 2, 3), (4, 5, 6), (7, 8, 9)] None)]
       ''cut.las'' ''a.xlsx'' 2) ''a.xlsx'' = None \<and>
   raised (export_las_to_csv
       [''cut.las'' \<mapsto> LasFile (Las 4 [(1::nat, 2, 3), (4, 5, 6), (7, 8, 9)] (Some (ValueError ''buffer size''))),
        ''short.las'' \<mapsto> LasFile (Las 4 [(1::nat, 2, 3), (4, 5, 6), (7, 8, 9)] None)]
       ''cut.las'' ''a.csv'' 2) = Some (ValueError ''buffer size'') \<and>
   state_of (export_las_to_csv
       [''cut.las'' \<mapsto> LasFile (Las 4 [(1::nat, 2, 3), (4, 5, 6), (7, 8, 9)] (Some (ValueError ''buffer size''))),
        ''short.las'' \<mapsto> LasFile (Las 4 [(1::nat, 2, 3), (4, 5, 6), (7, 8, 9)] None)]
       ''cut.las'' ''a.csv'' 2) ''a.csv''
     = Some (CsvFile [header_row, [Number 1, Number 2, Number 3], [Number 4, Number 5, Number 6]]) \<and>
   raised (export_las_to_csv
       [''cut.las'' \<mapsto> LasFile (Las 4 [(1::nat, 2, 3), (4, 5, 6), (7, 8, 9)] (Some (ValueError ''buffer size''))),
        ''short.las'' \<mapsto> LasFile (Las 4 [(1::nat, 2, 3), (4, 5, 6), (7, 8, 9)] None)]
       ''short.las'' ''a.csv'' 2) = None \<and>
   state_of (export_las_to_csv
       [''cut.las'' \<mapsto> LasFile (Las 4 [(1::nat, 2, 3), (4, 5, 6), (7, 8, 9)] (Some (ValueError ''buffer size''))),
        ''short.las'' \<mapsto> LasFile (Las 4 [(1::nat, 2, 3), (4, 5, 6), (7, 8, 9)] None)]
       ''short.las'' ''a.csv'' 2) ''a.csv''
     = Some (CsvFile [header_row, [Number 1, Number 2, Number 3], [Number 4, Number 5, Number 6],
         [Number 7, Number 8, Number 9]])"
proof -
  let ?pts = "[(1::nat, 2::nat, 3::nat), (4, 5, 6), (7, 8, 9)]"
  let ?e = "ValueError ''buffer size''"
  let ?cut = "Las 4 ?pts (Some ?e)"
  let ?short = "Las 4 ?pts None"
  let ?fs = "[''cut.las'' \<mapsto> LasFile ?cut, ''short.las'' \<mapsto> LasFile ?short]"
  have h1: "?fs ''cut.las'' = Some (LasFile ?cut)" by simp
  have h2: "length (readable ?cut) < point_count ?cut" by simp
  have h3: "cut_record ?cut = Some ?e" by simp
  have h4: "''cut.las'' \<noteq> ''a.csv'' \<and> ?fs ''a.csv'' \<noteq> Some Directory" by simp
  have k1: "?fs ''short.las'' = Some (LasFile ?short)" by simp
  have k2: "length (readable ?short) < point_count ?short" by simp
  have k3: "cut_record ?short = None" by simp
  have k4: "''short.las'' \<noteq> ''a.csv'' \<and> ?fs ''a.csv'' \<noteq> Some Directory" by simp
  note t = truncated_input_outputs[where fs = ?fs and las_path = "''cut.las''" and l = ?cut
      and e = ?e and xlsx_path = "''a.xlsx''" and c = 2 and csv_path = "''a.csv''",
      OF h1 h2, THEN conjunct1, rule_format, OF h3]
  note u = truncated_input_outputs[where fs = ?fs and las_path = "''short.las''" and l = ?short
      and e = ?e and xlsx_path = "''a.xlsx''" and c = 2 and csv_path = "''a.csv''",
      OF k1 k2, THEN conjunct2, rule_format, OF k3]
  have x: "export_las_to_excel ?fs ''cut.las'' ''a.xlsx'' 2 = Raised ?e ?fs"
    by (rule t[THEN conjunct1])
  have "export_las_to_csv ?fs ''cut.las'' ''a.csv'' 2
      = Raised ?e (?fs(''a.csv'' \<mapsto> CsvFile (header_row # map data_row
            (take (length (readable ?cut) div nat (max 1 2) * nat (max 1 2)) (readable ?cut)))))"
    by (rule t[THEN conjunct2, rule_format, OF h4])
  moreover have "map data_row (take (length (readable ?cut) div nat (max 1 2) * nat (max 1 2)) (readable ?cut))
      = [[Number 1, Number 2, Number 3], [Number 4, Number 5, Number 6]]"
    by (simp add: data_row_def)
  ultimately have c: "export_las_to_csv ?fs ''cut.las'' ''a.csv'' 2
      = Raised ?e (?fs(''a.csv'' \<mapsto> CsvFile [header_row, [Number 1, Number 2, Number 3], [Number 4, Number 5, Number 6]]))"
    by (simp only:)
  have "export_las_to_csv ?fs ''short.las'' ''a.csv'' 2
      = Returned (?fs(''a.csv'' \<mapsto> CsvFile (header_row # map data_row (readable ?short))))"
    by (rule u[THEN conjunct2, rule_format, OF k4])
  moreover have "map data_row (readable ?short)
      = [[Number 1, Number 2, Number 3], [Number 4, Number 5, Number 6], [Number 7, Number 8, Number 9]]"
    by (simp add: data_row_def)
  ultimately have s: "export_las_to_csv ?fs ''short.las'' ''a.csv'' 2
      = Returned (?fs(''a.csv'' \<mapsto> CsvFile [header_row, [Number 1, Number 2, Number 3],
          [Number 4, Number 5, Number 6], [Number 7, Number 8, Number 9]]))"
    by (simp only:)
  show ?thesis unfolding x c s by simp
qed

section \<open>The number of sheets\<close>

text \<open>
  Claim C2 as worded fails: its page count \<open>ceil((N+1)/(R-1))\<close> is not what the code
  produces.
  A complete file of 1048575 points fills one sheet to exactly \<open>EXCEL_MAX_ROWS\<close> rows, so no
  sheet is over the limit and there is one sheet, where the formula gives two.
\<close>

theorem page_count_formula_counterexample:
  "export_las_to_excel [''a.las'' \<mapsto> LasFile (Las 1048575 (replicate 1048575 (0::nat, 0, 0)) None)]
       ''a.las'' ''a.xlsx'' 500000
     = Returned [''a.las'' \<mapsto> LasFile (Las 1048575 (replicate 1048575 (0, 0, 0)) None),
         ''a.xlsx'' \<mapsto> XlsxFile [(''Points_1'', header_row # replicate 1048575 [Number 0, Number 0, Number 0])]] \<and>
   length [(''Points_1'', header_row # replicate 1048575 [Number (0::nat), Number 0, Number 0])] = 1 \<and>
   spec_page_count EXCEL_MAX_ROWS 1048575 = 2"
proof -
  let ?pts = "replicate 1048575 (0::nat, 0::nat, 0::nat)"
  let ?l = "Las 1048575 ?pts None"
  let ?fs = "[''a.las'' \<mapsto> LasFile ?l]"
  have r: "reads_to_end ?l" by (simp add: reads_to_end_def)
  have d: "decoded ?l = ?pts" by (simp add: decoded_def)
  have "wb (excel_after EXCEL_MAX_ROWS ?pts) = [(points_title 1, header_row # map data_row ?pts)]"
    by (rule excel_after_one_sheet) (simp_all add: EXCEL_MAX_ROWS_def)
  then have book: "wb (excel_after EXCEL_MAX_ROWS ?pts)
      = [(''Points_1'', header_row # replicate 1048575 [Number 0, Number 0, Number 0])]"
    by (simp add: points_title_def str_nat.simps digit_char_def data_row_def)
  have "export_las_to_excel ?fs ''a.las'' ''a.xlsx'' 500000
      = Returned (?fs(''a.xlsx'' \<mapsto> XlsxFile (wb (excel_after EXCEL_MAX_ROWS (decoded ?l)))))"
    unfolding export_las_to_excel_def by (rule excel_clean[OF _ r]) simp_all
  then have "export_las_to_excel ?fs ''a.las'' ''a.xlsx'' 500000
      = Returned (?fs(''a.xlsx'' \<mapsto> XlsxFile (wb (excel_after EXCEL_MAX_ROWS ?pts))))"
    by (simp only: d)
  with book show ?thesis
    by (simp add: spec_page_count_def EXCEL_MAX_ROWS_def)
qed

text \<open>
  Claim C2, as the code has it. A workbook that was saved for \<open>N\<close> points, the
  points that the reader handed over, which are all of a complete file, under a row
  limit \<open>R\<close> of at least 2 has \<open>max(1, ceil(N / (R - 1)))\<close> sheets. No sheet has more than
  \<open>R\<close> rows, every sheet before the last has exactly \<open>R\<close>, the last has 1 plus the
  points that the sheets before it did not take, and the first row of every sheet is the
  header. \<open>export_las_to_excel\<close> is the case \<open>R = EXCEL_MAX_ROWS\<close>.
\<close>

theorem excel_page_count:
  assumes "2 \<le> R" and "fs las_path = Some (LasFile l)"
    and "export_las_to_excel_with R fs las_path xlsx_path c = Returned fs'"
  shows "(let book = wb (excel_after R (decoded l)); N = length (decoded l)
          in fs' = fs(xlsx_path \<mapsto> XlsxFile book) \<and>
             (point_count l \<le> length (readable l) \<longrightarrow> N = point_count l) \<and>
             length book = page_count R N \<and>
             (\<forall>s \<in> set book. length (snd s) \<le> R \<and> snd s \<noteq> [] \<and> hd (snd s) = header_row) \<and>
             (\<forall>s \<in> set (butlast book). length (snd s) = R) \<and>
             length (snd (last book)) = 1 + (N - (length book - 1) * (R - 1)))"
proof -
  from excel_returned[OF assms(3)] assms(2) have
    p: "reads_to_end l" "fs xlsx_path \<noteq> Some Directory"
    by auto
  define pts where "pts = decoded l"
  have complete: "point_count l \<le> length (readable l) \<longrightarrow> length pts = point_count l"
    by (simp add: pts_def decoded_def)
  let ?st = "excel_after R pts"
  have inv: "excel_inv ?st pts" by (rule excel_inv_after)
  have rb: "rows_bounded R ?st" using assms(1) by (rule rows_bounded_after)
  from excel_clean[OF assms(2) p, of R c] assms(3)
  have saved: "fs' = fs(xlsx_path \<mapsto> XlsxFile (wb ?st))" by (simp add: pts_def)
  have count: "length (wb ?st) = page_count R (length pts)"
    using assms(1) inv rb by (rule pages_written)
  from inv have ne: "wb ?st \<noteq> []"
    and ris: "rows_in_sheet ?st = length (snd (last (wb ?st)))"
    and hd: "\<forall>s \<in> set (wb ?st). snd s \<noteq> [] \<and> hd (snd s) = header_row"
    by (simp_all add: excel_inv_def)
  from rb have le: "rows_in_sheet ?st \<le> R"
    and full: "\<forall>s \<in> set (butlast (wb ?st)). length (snd s) = R"
    by (simp_all add: rows_bounded_def)
  have bound: "\<forall>s \<in> set (wb ?st). length (snd s) \<le> R"
  proof
    fix s assume "s \<in> set (wb ?st)"
    then have "s \<in> set (butlast (wb ?st) @ [last (wb ?st)])" using ne by simp
    then show "length (snd s) \<le> R" using full le ris by auto
  qed
  from ne hd ris have pos: "1 \<le> rows_in_sheet ?st"
    by (simp add: Suc_le_eq)
  have "length pts = (length (wb ?st) - 1) * (R - 1) + (rows_in_sheet ?st - 1)"
    using inv rb by (rule points_by_pages)
  with pos ris have lastrows: "length (snd (last (wb ?st))) = 1 + (length pts - (length (wb ?st) - 1) * (R - 1))"
    by simp
  from saved complete count hd bound full lastrows show ?thesis
    unfolding Let_def pts_def by blast
qed

theorem excel_page_count_witness:
  "(2::nat) \<le> 3 \<and>
   [''a.las'' \<mapsto> LasFile (Las 5 [(1::nat, 1, 1), (2, 2, 2), (3, 3, 3), (4, 4, 4), (5, 5, 5)] None)] ''a.las''
     = Some (LasFile (Las 5 [(1, 1, 1), (2, 2, 2), (3, 3, 3), (4, 4, 4), (5, 5, 5)] None)) \<and>
   export_las_to_excel_with 3
       [''a.las'' \<mapsto> LasFile (Las 5 [(1::nat, 1, 1), (2, 2, 2), (3, 3, 3), (4, 4, 4), (5, 5, 5)] None)]
       ''a.las'' ''a.xlsx'' 2
     = Returned [''a.las'' \<mapsto> LasFile (Las 5 [(1, 1, 1), (2, 2, 2), (3, 3, 3), (4, 4, 4), (5, 5, 5)] None),
         ''a.xlsx'' \<mapsto> XlsxFile
           [(''Points_1'', [header_row, [Number 1, Number 1, Number 1], [Number 2, Number 2, Number 2]]),
            (''Points_2'', [header_row, [Number 3, Number 3, Number 3], [Number 4, Number 4, Number 4]]),
            (''Points_3'', [header_row, [Number 5, Number 5, Number 5]])]] \<and>
   length (wb (excel_after 3 [(1::nat, 1::nat, 1::nat), (2, 2, 2), (3, 3, 3), (4, 4, 4), (5, 5, 5)])) = 3 \<and>
   page_count 3 5 = 3 \<and>
   length (snd (last (wb (excel_after 3 [(1::nat, 1::nat, 1::nat), (2, 2, 2), (3, 3, 3), (4, 4, 4), (5, 5, 5)])))) = 2"
proof -
  let ?pts = "[(1::nat, 1::nat, 1::nat), (2, 2, 2), (3, 3, 3), (4, 4, 4), (5, 5, 5)]"
  let ?l = "Las 5 ?pts None"
  let ?fs = "[''a.las'' \<mapsto> LasFile ?l]"
  let ?fx = "?fs(''a.xlsx'' \<mapsto> XlsxFile
           [(''Points_1'', [header_row, [Number 1, Number 1, Number 1], [Number 2, Number 2, Number 2]]),
            (''Points_2'', [header_row, [Number 3, Number 3, Number 3], [Number 4, Number 4, Number 4]]),
            (''Points_3'', [header_row, [Number 5, Number 5, Number 5]])])"
  have h1: "(2::nat) \<le> 3" by simp
  have h2: "?fs ''a.las'' = Some (LasFile ?l)" by simp
  have rd: "reads_to_end ?l" by (simp add: reads_to_end_def)
  have d: "decoded ?l = ?pts" by (simp add: decoded_def)
  have book: "wb (excel_after 3 ?pts) =
           [(''Points_1'', [header_row, [Number 1, Number 1, Number 1], [Number 2, Number 2, Number 2]]),
            (''Points_2'', [header_row, [Number 3, Number 3, Number 3], [Number 4, Number 4, Number 4]]),
            (''Points_3'', [header_row, [Number 5, Number 5, Number 5]])]"
    by code_simp
  have "export_las_to_excel_with 3 ?fs ''a.las'' ''a.xlsx'' 2
      = Returned (?fs(''a.xlsx'' \<mapsto> XlsxFile (wb (excel_after 3 (decoded ?l)))))"
    by (rule excel_clean[OF _ rd]) simp_all
  then have h3: "export_las_to_excel_with 3 ?fs ''a.las'' ''a.xlsx'' 2 = Returned ?fx"
    by (simp only: d book)
  have pc: "page_count 3 5 = 3" by (simp add: page_count_def)
  note t = excel_page_count[OF h1 h2 h3, unfolded Let_def]
  have n: "length ?pts = 5" by simp
  note t2 = t[THEN conjunct2, THEN conjunct2, THEN conjunct1, unfolded d n]
  note t5 = t[THEN conjunct2, THEN conjunct2, THEN conjunct2, THEN conjunct2, THEN conjunct2, unfolded d n]
  from t2 pc have a: "length (wb (excel_after 3 ?pts)) = 3" by (rule trans)
  have b: "length (snd (last (wb (excel_after 3 ?pts)))) = 2"
    unfolding t5 a by simp
  from h1 h2 h3 pc a b show ?thesis by blast
qed

section \<open>Starting a new sheet\<close>

text \<open>
  Claim C3. Take the state the export is in after any number of rows, with the counter
  of the current sheet at the row limit, which is then the number of rows that sheet
  holds. Writing the next row appends one sheet to the workbook, titled with the next
  number, whose rows are the header and that row, and makes it the current sheet. The
  titles are then \<open>Points_1\<close>, \<open>Points_2\<close>, and so on up to the new one, all different;
  the data rows of the workbook are those of the points seen followed by the new row,
  so the row is there once; and whatever is written later, the sheets that were there
  before the new one stay as they are.
\<close>

theorem write_row_rollover:
  assumes "st = excel_after R seen" and "R \<le> rows_in_sheet st"
  shows "rows_in_sheet st = length (snd (wb st ! ws st)) \<and>
         sheet_index st = length (wb st) \<and>
         write_row R st row =
           st\<lparr>wb := wb st @ [(points_title (sheet_index st + 1), [header_row, data_row row])],
              ws := length (wb st), sheet_index := sheet_index st + 1, rows_in_sheet := 2\<rparr> \<and>
         map fst (wb (write_row R st row)) = map points_title [1..<sheet_index st + 2] \<and>
         distinct (map fst (wb (write_row R st row))) \<and>
         concat (map (tl \<circ> snd) (wb (write_row R st row))) = map data_row (seen @ [row]) \<and>
         take (length (wb st)) (wb (fold (\<lambda>r s. write_row R s r) later (write_row R st row))) = wb st"
proof -
  have inv: "excel_inv st seen" unfolding assms(1) by (rule excel_inv_after)
  have inv': "excel_inv (write_row R st row) (seen @ [row])" using inv by (rule excel_inv_step)
  have st': "write_row R st row =
           st\<lparr>wb := wb st @ [(points_title (sheet_index st + 1), [header_row, data_row row])],
              ws := length (wb st), sheet_index := sheet_index st + 1, rows_in_sheet := 2\<rparr>"
    using assms(2) by (rule write_row_new_sheet)
  from inv have ne: "wb st \<noteq> []" and wsi: "ws st = length (wb st) - 1"
    and si: "sheet_index st = length (wb st)"
    and ris: "rows_in_sheet st = length (snd (last (wb st)))"
    by (simp_all add: excel_inv_def)
  from ne wsi ris have cur: "rows_in_sheet st = length (snd (wb st ! ws st))"
    by (simp add: last_conv_nth)
  from inv' have titles: "map fst (wb (write_row R st row))
      = map points_title [1..<length (wb (write_row R st row)) + 1]"
    and data: "concat (map (tl \<circ> snd) (wb (write_row R st row))) = map data_row (seen @ [row])"
    by (simp_all add: excel_inv_def)
  have len: "length (wb (write_row R st row)) = sheet_index st + 1"
    by (simp add: st' si)
  from titles have titles': "map fst (wb (write_row R st row)) = map points_title [1..<sheet_index st + 2]"
    by (simp only: len) simp
  have dist: "distinct (map fst (wb (write_row R st row)))"
    unfolding titles' by (rule titles_distinct)
  have "take (length (wb st)) (wb (fold (\<lambda>r s. write_row R s r) later (write_row R st row)))
      = take (length (wb st)) (wb (write_row R st row))"
    using inv' by (rule fold_keeps_earlier_sheets) (simp add: len si)
  also have "\<dots> = wb st" by (simp add: st')
  finally have frozen: "take (length (wb st)) (wb (fold (\<lambda>r s. write_row R s r) later (write_row R st row))) = wb st" .
  from cur si st' titles' dist data frozen show ?thesis by blast
qed

theorem write_row_rollover_witness:
  "excel_after 3 [(1::nat, 1::nat, 1::nat), (2, 2, 2)] = excel_after 3 [(1, 1, 1), (2, 2, 2)] \<and>
   3 \<le> rows_in_sheet (excel_after 3 [(1::nat, 1::nat, 1::nat), (2, 2, 2)]) \<and>
   wb (excel_after 3 [(1::nat, 1::nat, 1::nat), (2, 2, 2)])
     = [(''Points_1'', [header_row, [Number 1, Number 1, Number 1], [Number 2, Number 2, Number 2]])] \<and>
   wb (write_row 3 (excel_after 3 [(1::nat, 1::nat, 1::nat), (2, 2, 2)]) (3, 3, 3))
     = [(''Points_1'', [header_row, [Number 1, Number 1, Number 1], [Number 2, Number 2, Number 2]]),
        (''Points_2'', [header_row, [Number 3, Number 3, Number 3]])] \<and>
   distinct (map fst (wb (write_row 3 (excel_after 3 [(1::nat, 1::nat, 1::nat), (2, 2, 2)]) (3, 3, 3)))) \<and>
   concat (map (tl \<circ> snd) (wb (write_row 3 (excel_after 3 [(1::nat, 1::nat, 1::nat), (2, 2, 2)]) (3, 3, 3))))
     = map data_row ([(1, 1, 1), (2, 2, 2)] @ [(3, 3, 3)])"
proof -
  let ?seen = "[(1::nat, 1::nat, 1::nat), (2, 2, 2)]"
  let ?st = "excel_after 3 ?seen"
  have h1: "?st = excel_after 3 ?seen" by (rule refl)
  have h2: "3 \<le> rows_in_sheet ?st" by code_simp
  have b0: "wb ?st = [(''Points_1'', [header_row, [Number 1, Number 1, Number 1], [Number 2, Number 2, Number 2]])]"
    by code_simp
  have si: "points_title (sheet_index ?st + 1) = ''Points_2''" by code_simp
  have dr: "data_row (3::nat, 3::nat, 3::nat) = [Number 3, Number 3, Number 3]" by code_simp
  note t = write_row_rollover[OF h1 h2, of "(3, 3, 3)" "[]"]
  note t3 = t[THEN conjunct2, THEN conjunct2, THEN conjunct1]
  note t5 = t[THEN conjunct2, THEN conjunct2, THEN conjunct2, THEN conjunct2, THEN conjunct1]
  note t6 = t[THEN conjunct2, THEN conjunct2, THEN conjunct2, THEN conjunct2, THEN conjunct2, THEN conjunct1]
  have b1: "wb (write_row 3 ?st (3, 3, 3))
     = [(''Points_1'', [header_row, [Number 1, Number 1, Number 1], [Number 2, Number 2, Number 2]]),
        (''Points_2'', [header_row, [Number 3, Number 3, Number 3]])]"
  proof -
    have "wb (write_row 3 ?st (3, 3, 3))
        = wb ?st @ [(points_title (sheet_index ?st + 1), [header_row, data_row (3, 3, 3)])]"
      by (subst t3) simp
    then show ?thesis by (simp only: b0 si dr append.simps)
  qed
  from h1 h2 b0 b1 t5 t6 show ?thesis by blast
qed

section \<open>The row counter\<close>

text \<open>
  Claim C10. For a row limit \<open>R\<close> of at least 2, as \<open>EXCEL_MAX_ROWS\<close> is, and after any
  number of rows written: the counter \<open>rows_in_sheet\<close> is the number of rows of the
  current sheet, which is the last one, and lies between 1 and \<open>R\<close>; every sheet holds
  between 1 and \<open>R\<close> rows; every sheet after the first holds at least two, the header
  and a data row, so there is no empty sheet at the end. Writing a row either appends
  it to the current sheet or appends a new sheet that holds the header and that row:
  a sheet is only created together with a data row. The workbook that a returning
  export saves is the workbook of that state after all points that were read.
\<close>

theorem rows_in_sheet_bounds:
  assumes "2 \<le> R"
  shows "(let st = excel_after R seen
          in 1 \<le> rows_in_sheet st \<and> rows_in_sheet st \<le> R \<and>
             ws st = length (wb st) - 1 \<and>
             rows_in_sheet st = length (snd (wb st ! ws st)) \<and>
             (\<forall>s \<in> set (wb st). 1 \<le> length (snd s) \<and> length (snd s) \<le> R) \<and>
             (\<forall>s \<in> set (tl (wb st)). 2 \<le> length (snd s)) \<and>
             (wb (write_row R st row)
                = butlast (wb st) @ [(fst (last (wb st)), snd (last (wb st)) @ [data_row row])] \<or>
              wb (write_row R st row)
                = wb st @ [(points_title (sheet_index st + 1), [header_row, data_row row])])) \<and>
         (fs las_path = Some (LasFile l) \<and>
          export_las_to_excel_with R fs las_path xlsx_path c = Returned fs' \<longrightarrow>
            fs' xlsx_path = Some (XlsxFile (wb (excel_after R (decoded l)))))"
proof -
  let ?st = "excel_after R seen"
  have inv: "excel_inv ?st seen" by (rule excel_inv_after)
  have rb: "rows_bounded R ?st" using assms by (rule rows_bounded_after)
  from inv have ne: "wb ?st \<noteq> []" and wsi: "ws ?st = length (wb ?st) - 1"
    and ris: "rows_in_sheet ?st = length (snd (last (wb ?st)))"
    and hd: "\<forall>s \<in> set (wb ?st). snd s \<noteq> [] \<and> hd (snd s) = header_row"
    and two: "\<forall>s \<in> set (tl (wb ?st)). 2 \<le> length (snd s)"
    by (simp_all add: excel_inv_def)
  from rb have le: "rows_in_sheet ?st \<le> R"
    and full: "\<forall>s \<in> set (butlast (wb ?st)). length (snd s) = R"
    by (simp_all add: rows_bounded_def)
  from ne hd ris have pos: "1 \<le> rows_in_sheet ?st" by (simp add: Suc_le_eq)
  from ne wsi ris have cur: "rows_in_sheet ?st = length (snd (wb ?st ! ws ?st))"
    by (simp add: last_conv_nth)
  have bound: "\<forall>s \<in> set (wb ?st). 1 \<le> length (snd s) \<and> length (snd s) \<le> R"
  proof
    fix s assume s: "s \<in> set (wb ?st)"
    then have "s \<in> set (butlast (wb ?st) @ [last (wb ?st)])" using ne by simp
    then have "length (snd s) \<le> R" using full le ris by auto
    moreover from hd s have "1 \<le> length (snd s)" by (simp add: Suc_le_eq)
    ultimately show "1 \<le> length (snd s) \<and> length (snd s) \<le> R" by simp
  qed
  have step: "wb (write_row R ?st row)
                = butlast (wb ?st) @ [(fst (last (wb ?st)), snd (last (wb ?st)) @ [data_row row])] \<or>
              wb (write_row R ?st row)
                = wb ?st @ [(points_title (sheet_index ?st + 1), [header_row, data_row row])]"
  proof (cases "R \<le> rows_in_sheet ?st")
    case True
    from write_row_new_sheet[OF True, of row] show ?thesis by simp
  next
    case False
    then have lt: "rows_in_sheet ?st < R" by simp
    from write_row_same_sheet[OF ne wsi lt, of row] show ?thesis by simp
  qed
  have saved: "fs las_path = Some (LasFile l) \<and>
          export_las_to_excel_with R fs las_path xlsx_path c = Returned fs' \<longrightarrow>
            fs' xlsx_path = Some (XlsxFile (wb (excel_after R (decoded l))))"
  proof
    assume a: "fs las_path = Some (LasFile l) \<and>
          export_las_to_excel_with R fs las_path xlsx_path c = Returned fs'"
    then have ok: "export_las_to_excel_with R fs las_path xlsx_path c = Returned fs'" by simp
    from a have f: "fs las_path = Some (LasFile l)" by simp
    from excel_returned[OF ok] f have
      p: "reads_to_end l" "fs xlsx_path \<noteq> Some Directory"
      by auto
    from excel_clean[OF f p, of R c] ok
    show "fs' xlsx_path = Some (XlsxFile (wb (excel_after R (decoded l))))"
      by auto
  qed
  from pos le wsi cur bound two step saved show ?thesis
    unfolding Let_def by blast
qed

theorem rows_in_sheet_bounds_witness:
  "(2::nat) \<le> 3 \<and>
   wb (excel_after 3 [(1::nat, 1::nat, 1::nat), (2, 2, 2), (3, 3, 3)])
     = [(''Points_1'', [header_row, [Number 1, Number 1, Number 1], [Number 2, Number 2, Number 2]]),
        (''Points_2'', [header_row, [Number 3, Number 3, Number 3]])] \<and>
   (''Points_2'', [header_row, [Number (3::nat), Number 3, Number 3]])
     \<in> set (tl (wb (excel_after 3 [(1::nat, 1::nat, 1::nat), (2, 2, 2), (3, 3, 3)]))) \<and>
   2 \<le> length (snd (''Points_2'', [header_row, [Number (3::nat), Number 3, Number 3]])) \<and>
   1 \<le> rows_in_sheet (excel_after 3 [(1::nat, 1::nat, 1::nat), (2, 2, 2), (3, 3, 3)]) \<and>
   rows_in_sheet (excel_after 3 [(1::nat, 1::nat, 1::nat), (2, 2, 2), (3, 3, 3)]) \<le> 3"
proof -
  let ?seen = "[(1::nat, 1::nat, 1::nat), (2, 2, 2), (3, 3, 3)]"
  let ?st = "excel_after 3 ?seen"
  let ?s = "(''Points_2'', [header_row, [Number (3::nat), Number 3, Number 3]])"
  have h: "(2::nat) \<le> 3" by simp
  have book: "wb ?st =
      [(''Points_1'', [header_row, [Number 1, Number 1, Number 1], [Number 2, Number 2, Number 2]]), ?s]"
    by code_simp
  have m: "?s \<in> set (tl (wb ?st))" by (simp only: book) simp
  note t = rows_in_sheet_bounds[OF h, of ?seen, unfolded Let_def, THEN conjunct1]
  from t have pos: "1 \<le> rows_in_sheet ?st" and le: "rows_in_sheet ?st \<le> 3"
    and two: "\<forall>s \<in> set (tl (wb ?st)). 2 \<le> length (snd s)"
    by blast+
  from two m have l2: "2 \<le> length (snd ?s)" by (rule bspec)
  from h book m l2 pos le show ?thesis by blast
qed

section \<open>Several input files\<close>

text \<open>
  What the loop of \<open>main\<close> does when the export of its first file raises: it raises
  too, with the files as that export left them and nothing more printed.
\<close>

lemma main_loop_raises:
  assumes "export_las_to_csv fs las_path
      (os_path_join (os_path_dirname las_path)
         (fst (os_path_splitext (os_path_basename las_path)) @ ''.csv'')) CHUNK_SIZE = Raised e fs'"
  shows "main_loop (las_path # files) (fs, printed) = Raised e (fs', printed)"
  using assms by (simp add: Let_def)

text \<open>
  Claim C8 on the two callers. The input is a batch of two files, the first of which
  ends inside its first record, so that reading it raises. The command line loop of
  \<open>main\<close> raises on the first file and never exports the second. The worker of the
  window, on the same two files, posts the error of the first, goes on, exports the
  second and reports one file done.
\<close>

theorem main_batch_aborts:
  "main Map.empty [''arcgis.py'', ''/d/bad.las'', ''/d/good.las'']
       [''/d/bad.las'' \<mapsto> LasFile (Las 1 [] (Some (ValueError ''buffer size''))),
        ''/d/good.las'' \<mapsto> LasFile (Las 1 [(1::nat, 2, 3)] None)]
     = Some (Raised (ValueError ''buffer size'')
         ([''/d/bad.las'' \<mapsto> LasFile (Las 1 [] (Some (ValueError ''buffer size''))),
           ''/d/good.las'' \<mapsto> LasFile (Las 1 [(1, 2, 3)] None),
           ''/d/bad.csv'' \<mapsto> CsvFile [header_row]], [])) \<and>
   export_worker \<lparr>selected_files = [''/d/bad.las'', ''/d/good.las''], output_dir = [], as_csv_var = True\<rparr>
       [''/d/bad.las'' \<mapsto> LasFile (Las 1 [] (Some (ValueError ''buffer size''))),
        ''/d/good.las'' \<mapsto> LasFile (Las 1 [(1::nat, 2, 3)] None)]
     = ([''/d/bad.las'' \<mapsto> LasFile (Las 1 [] (Some (ValueError ''buffer size''))),
         ''/d/good.las'' \<mapsto> LasFile (Las 1 [(1, 2, 3)] None),
         ''/d/bad.csv'' \<mapsto> CsvFile [header_row],
         ''/d/good.csv'' \<mapsto> CsvFile [header_row, [Number 1, Number 2, Number 3]]],
        [ShowError ''/d/bad.las'' (ValueError ''buffer size''), Progress 1, Progress 2, ExportDone 1])"
  by (simp add: main_def export_worker_def worker_job_def os_path_isfile_def os_path_basename_def
      os_path_dirname_def os_path_splitext_def os_path_join_def CHUNK_SIZE_def
      export_las_to_csv_def laspy_open_def chunk_points_def chunk_iterator.simps request_def
      zip3_def writerows_def data_row_def Let_def)

end
